theory Spec2Isabelle
  imports Main "HOL-Library.Word"
begin

unbundle bit_operations_syntax

section \<open>Layout constants of \<open>main_fs.c\<close>\<close>

text \<open>
  The macros of the source. \<open>sizeof(Superblock)\<close> and \<open>sizeof(FileEntry)\<close> are the
  sizes of the two packed structs (\<open>#pragma pack(push, 1)\<close>): four \<open>uint32_t\<close>, and one
  \<open>uint8_t\<close>, the name buffer and four \<open>uint32_t\<close>. All of them are below \<open>2 ^ 32\<close>, so
  they are kept as natural numbers and converted where the code stores them in a
  fixed-width variable.
\<close>

definition FS_SIZE :: nat where
  "FS_SIZE = 1024 * 1024"

definition FS_MAGIC :: "32 word" where
  "FS_MAGIC = 0xDEADBEEF"

definition FS_VERSION :: "32 word" where
  "FS_VERSION = 1"

definition MAX_FILES :: nat where
  "MAX_FILES = 64"

definition NAME_MAX_LEN :: nat where
  "NAME_MAX_LEN = 32"

definition sizeof_Superblock :: nat where
  "sizeof_Superblock = 4 + 4 + 4 + 4"

definition sizeof_FileEntry :: nat where
  "sizeof_FileEntry = 1 + NAME_MAX_LEN + 4 + 4 + 4 + 4"

definition META_SIZE :: nat where
  "META_SIZE = sizeof_Superblock + sizeof_FileEntry * MAX_FILES"

definition DATA_OFFSET :: nat where
  "DATA_OFFSET = META_SIZE"

definition FILE_REGION_SIZE :: nat where
  "FILE_REGION_SIZE = (FS_SIZE - DATA_OFFSET) div MAX_FILES"

text \<open>Values of the system headers on Linux that the callbacks use.\<close>

definition O_CREAT :: "32 word" where
  "O_CREAT = 0x40"

definition O_TRUNC :: "32 word" where
  "O_TRUNC = 0x200"

definition S_IFDIR :: "32 word" where
  "S_IFDIR = 0x4000"

definition S_IFREG :: "32 word" where
  "S_IFREG = 0x8000"

section \<open>Data model\<close>

text \<open>
  The two structs. The field \<open>size\<close> of \<open>FileEntry\<close> is called \<open>fsize\<close> here,
  since \<open>size\<close> is a constant of HOL. The name buffer \<open>char name[NAME_MAX_LEN]\<close> is a
  list of characters; a well-formed table holds lists of exactly \<open>NAME_MAX_LEN\<close>
  characters.
\<close>

record Superblock =
  magic :: "32 word"
  version :: "32 word"
  last_alloc :: "32 word"
  file_count :: "32 word"

record FileEntry =
  used :: "8 word"
  name :: "char list"
  start :: "32 word"
  fsize :: "32 word"
  perms :: "32 word"
  mtime :: "32 word"

text \<open>
  The global state: the superblock, the file table and the backing file
  \<open>g_fs_file\<close>, which is modelled by its content, one character per byte.
  \<open>fs_init\<close> leaves \<open>g_fs_file\<close> open or terminates the process, so the
  callbacks always run with an open file.
\<close>

record fs_state =
  g_super :: Superblock
  g_files :: "FileEntry list"
  g_fs_file :: "char list"

text \<open>
  What the environment decides in one call: whether \<open>fseek\<close> into the data region
  succeeds, how many bytes the \<open>fread\<close> or \<open>fwrite\<close> on the data region transfers at
  most, how many bytes of the metadata the two \<open>fwrite\<close> calls of
  \<open>fs_sync_metadata\<close> transfer at most, and the value of \<open>time(NULL)\<close>.
\<close>

record io_env =
  seek_ok :: bool
  data_xfer :: nat
  meta_xfer :: nat
  now :: "64 word"

text \<open>
  The negated \<open>errno\<close> values the callbacks return; \<open>FATAL\<close> stands for
  \<open>fatal()\<close>, which prints a message and calls \<open>exit\<close>.
\<close>

datatype error = ENOENT | EIO | EBADF | ENOSPC | ENOTDIR | FATAL

abbreviation NUL :: char where
  "NUL \<equiv> CHR 0x00"

section \<open>C strings\<close>

text \<open>
  A C string is given by the characters from the pointer on; it ends at the first
  \<open>NUL\<close>, and a list that holds no \<open>NUL\<close> is followed by the terminator.
\<close>

definition c_str :: "char list \<Rightarrow> char list" where
  "c_str s = takeWhile (\<lambda>c. c \<noteq> NUL) s"

definition char_at0 :: "char list \<Rightarrow> char" where
  "char_at0 s = (case s of [] \<Rightarrow> NUL | c # _ \<Rightarrow> c)"

text \<open>\<open>strncmp(a, b, n)\<close>: the difference of the first two characters that differ
  (as \<open>unsigned char\<close>), within the first \<open>n\<close> characters and up to the terminator.\<close>

fun strncmp :: "char list \<Rightarrow> char list \<Rightarrow> nat \<Rightarrow> int" where
  "strncmp a b 0 = 0"
| "strncmp a b (Suc n) =
     (if char_at0 a \<noteq> char_at0 b then int (of_char (char_at0 a)) - int (of_char (char_at0 b))
      else if char_at0 a = NUL then 0
      else strncmp (tl a) (tl b) n)"

definition strcmp :: "char list \<Rightarrow> char list \<Rightarrow> int" where
  "strcmp a b = strncmp a b (Suc (max (length a) (length b)))"

text \<open>\<open>strncpy(dst, src, n)\<close>: exactly \<open>n\<close> characters of \<open>dst\<close> are written, the
  string \<open>src\<close> cut at \<open>n\<close> characters and then \<open>NUL\<close>s.\<close>

definition strncpy :: "char list \<Rightarrow> char list \<Rightarrow> nat \<Rightarrow> char list" where
  "strncpy dst src n =
     (let s = take n (c_str src) in s @ replicate (n - length s) NUL @ drop n dst)"

text \<open>The idiom \<open>if (name[0] == '/') name++;\<close>.\<close>

definition skip_slash :: "char list \<Rightarrow> char list" where
  "skip_slash p = (if char_at0 p = CHR ''/'' then tl p else p)"

section \<open>The backing file\<close>

text \<open>
  Writing \<open>bs\<close> at position \<open>pos\<close> overwrites what is there and extends the file
  when needed (a seek past the end leaves a hole of zero bytes); reading stops at the
  end of the file.
\<close>

definition write_at :: "char list \<Rightarrow> nat \<Rightarrow> char list \<Rightarrow> char list" where
  "write_at f pos bs =
     take pos f @ replicate (pos - length f) NUL @ bs @ drop (pos + length bs) f"

definition read_at :: "char list \<Rightarrow> nat \<Rightarrow> nat \<Rightarrow> char list" where
  "read_at f pos n = take n (drop pos f)"

text \<open>
  The bytes of the packed structs as \<open>fwrite\<close> sends them to the file on a
  little-endian machine.
\<close>

definition le32 :: "32 word \<Rightarrow> char list" where
  "le32 w = map (\<lambda>k. char_of (unat (drop_bit (8 * k) w))) [0, 1, 2, 3]"

definition Superblock_bytes :: "Superblock \<Rightarrow> char list" where
  "Superblock_bytes s = le32 (magic s) @ le32 (version s) @ le32 (last_alloc s) @ le32 (file_count s)"

definition FileEntry_bytes :: "FileEntry \<Rightarrow> char list" where
  "FileEntry_bytes e =
     char_of (unat (used e)) # name e @ le32 (start e) @ le32 (fsize e) @ le32 (perms e) @ le32 (mtime e)"

definition meta_bytes :: "fs_state \<Rightarrow> char list" where
  "meta_bytes st = Superblock_bytes (g_super st) @ concat (map FileEntry_bytes (g_files st))"

section \<open>Utility functions\<close>

text \<open>\<open>uint32_t region_start = DATA_OFFSET + i * FILE_REGION_SIZE\<close>, as it is computed
  in \<open>fs_recompute_last_alloc\<close>, \<open>my_read\<close> and \<open>my_write\<close>.\<close>

definition region_start :: "nat \<Rightarrow> 32 word" where
  "region_start i = of_nat (DATA_OFFSET + i * FILE_REGION_SIZE)"

text \<open>The loop body of \<open>fs_recompute_last_alloc\<close> for slot \<open>i\<close>; \<open>lastv\<close> and \<open>endv\<close> are
  the variables \<open>last\<close> and \<open>end\<close>.\<close>

definition last_alloc_step :: "FileEntry list \<Rightarrow> 32 word \<Rightarrow> nat \<Rightarrow> 32 word" where
  "last_alloc_step fs lastv i =
     (if used (fs ! i) \<noteq> 0 \<and> fsize (fs ! i) > 0
      then (let endv = region_start i + fsize (fs ! i) in if endv > lastv then endv else lastv)
      else lastv)"

definition fs_recompute_last_alloc :: "fs_state \<Rightarrow> fs_state" where
  "fs_recompute_last_alloc st =
     st\<lparr>g_super := (g_super st)
          \<lparr>last_alloc := foldl (last_alloc_step (g_files st)) (of_nat DATA_OFFSET) [0..<MAX_FILES]\<rparr>\<rparr>"

text \<open>
  \<open>fs_sync_metadata\<close>: rewind, write the superblock, write the file table, flush.
  The result is \<open>False\<close> when one of the two \<open>fwrite\<close> calls is short and \<open>fatal\<close>
  ends the process; the bytes that were transferred before are in the file.
\<close>

definition fs_sync_metadata :: "io_env \<Rightarrow> fs_state \<Rightarrow> bool \<times> fs_state" where
  "fs_sync_metadata env st =
     (let img = meta_bytes st;
          st' = st\<lparr>g_fs_file := write_at (g_fs_file st) 0 (take (meta_xfer env) img)\<rparr>
      in if meta_xfer env < sizeof_Superblock then (False, st')
         else if meta_xfer env < length img then (False, st')
         else (True, st'))"

text \<open>The end of every mutating callback: \<open>fs_sync_metadata(); return r;\<close>.\<close>

definition sync_return :: "io_env \<Rightarrow> 'a \<Rightarrow> fs_state \<Rightarrow> (error + 'a) \<times> fs_state" where
  "sync_return env r st =
     (case fs_sync_metadata env st of
        (True, st') \<Rightarrow> (Inr r, st')
      | (False, st') \<Rightarrow> (Inl FATAL, st'))"

text \<open>\<open>memset(&e, 0, sizeof(e))\<close> on a file entry.\<close>

definition zero_entry :: FileEntry where
  "zero_entry = \<lparr>used = 0, name = replicate NAME_MAX_LEN NUL, start = 0, fsize = 0, perms = 0, mtime = 0\<rparr>"

text \<open>
  \<open>fs_format\<close>: a new file of \<open>FS_SIZE\<close> zero bytes, zeroed metadata with the magic
  number, the version and \<open>last_alloc = DATA_OFFSET\<close>, written to the file. The
  argument \<open>created\<close> says whether \<open>fopen\<close>, \<open>fseek\<close> and \<open>fputc\<close> succeeded; if not the
  process ends in \<open>fatal\<close>.
\<close>

definition fs_format :: "io_env \<Rightarrow> bool \<Rightarrow> (error + unit) \<times> fs_state" where
  "fs_format env created =
     (let st = \<lparr>g_super = \<lparr>magic = FS_MAGIC, version = FS_VERSION,
                            last_alloc = of_nat DATA_OFFSET, file_count = 0\<rparr>,
                g_files = replicate MAX_FILES zero_entry,
                g_fs_file = replicate FS_SIZE NUL\<rparr>
      in if \<not> created then (Inl FATAL, st\<lparr>g_fs_file := []\<rparr>)
         else sync_return env () st)"

section \<open>File table helpers\<close>

text \<open>Both loops return the first index that passes the test, and \<open>-1\<close>
  (\<open>None\<close> here) when there is none.\<close>

definition find_file_by_name :: "FileEntry list \<Rightarrow> char list \<Rightarrow> nat option" where
  "find_file_by_name fs nm =
     find (\<lambda>i. used (fs ! i) \<noteq> 0 \<and> strncmp (name (fs ! i)) (skip_slash nm) NAME_MAX_LEN = 0)
       [0..<MAX_FILES]"

definition alloc_file_slot :: "FileEntry list \<Rightarrow> nat option" where
  "alloc_file_slot fs = find (\<lambda>i. used (fs ! i) = 0) [0..<MAX_FILES]"

section \<open>The callbacks\<close>

text \<open>The fields of \<open>struct stat\<close> that \<open>my_getattr\<close> sets; all others stay zero.\<close>

record stat =
  st_mode :: "32 word"
  st_nlink :: "64 word"
  st_size :: "64 word"
  st_mtime :: "64 word"
  st_atime :: "64 word"
  st_ctime :: "64 word"

definition zero_stat :: stat where
  "zero_stat = \<lparr>st_mode = 0, st_nlink = 0, st_size = 0, st_mtime = 0, st_atime = 0, st_ctime = 0\<rparr>"

definition my_getattr :: "fs_state \<Rightarrow> char list \<Rightarrow> error + stat" where
  "my_getattr st path =
     (if strcmp path ''/'' = 0
      then Inr (zero_stat\<lparr>st_mode := S_IFDIR OR 0x1ED, st_nlink := 2\<rparr>)
      else case find_file_by_name (g_files st) path of
             None \<Rightarrow> Inl ENOENT
           | Some idx \<Rightarrow>
               (let fe = g_files st ! idx
                in Inr (zero_stat\<lparr>st_mode := S_IFREG OR 0x1A4, st_nlink := 1,
                          st_size := ucast (fsize fe), st_mtime := ucast (mtime fe),
                          st_atime := ucast (mtime fe), st_ctime := ucast (mtime fe)\<rparr>)))"

text \<open>The names handed to \<open>filler\<close>, in this order.\<close>

definition my_readdir :: "fs_state \<Rightarrow> char list \<Rightarrow> error + char list list" where
  "my_readdir st path =
     (if strcmp path ''/'' \<noteq> 0 then Inl ENOTDIR
      else Inr (''.'' # ''..'' #
             map (\<lambda>i. c_str (name (g_files st ! i)))
               (filter (\<lambda>i. used (g_files st ! i) \<noteq> 0) [0..<MAX_FILES])))"

text \<open>
  \<open>my_open\<close> and \<open>my_create\<close> return 0 and store the slot index in \<open>fi->fh\<close>; the
  model returns the slot index.
\<close>

definition my_open :: "io_env \<Rightarrow> char list \<Rightarrow> 32 word \<Rightarrow> fs_state \<Rightarrow> (error + nat) \<times> fs_state" where
  "my_open env path flags st =
     (let filename = skip_slash path in
      case find_file_by_name (g_files st) path of
        None \<Rightarrow>
          if flags AND O_CREAT = 0 then (Inl ENOENT, st)
          else (case alloc_file_slot (g_files st) of
                  None \<Rightarrow> (Inl ENOSPC, st)
                | Some idx \<Rightarrow>
                    (let fe = (g_files st ! idx)
                           \<lparr>used := 1,
                            name := strncpy (replicate NAME_MAX_LEN NUL) filename (NAME_MAX_LEN - 1),
                            fsize := 0, perms := 0x1A4, mtime := ucast (now env), start := 0\<rparr>;
                         st1 = st\<lparr>g_files := (g_files st)[idx := fe],
                                  g_super := (g_super st)\<lparr>file_count := file_count (g_super st) + 1\<rparr>\<rparr>
                     in sync_return env idx (fs_recompute_last_alloc st1)))
      | Some idx \<Rightarrow>
          if flags AND O_TRUNC \<noteq> 0
          then (let fe = (g_files st ! idx)\<lparr>fsize := 0, mtime := ucast (now env)\<rparr>;
                    st1 = st\<lparr>g_files := (g_files st)[idx := fe]\<rparr>
                in sync_return env idx (fs_recompute_last_alloc st1))
          else (Inr idx, st))"

text \<open>\<open>int idx = (int)fi->fh\<close> and the test of the handle in \<open>my_read\<close> and \<open>my_write\<close>.\<close>

definition fh_idx :: "64 word \<Rightarrow> int" where
  "fh_idx fh = sint (ucast fh :: 32 word)"

definition bad_fh :: "FileEntry list \<Rightarrow> 64 word \<Rightarrow> bool" where
  "bad_fh fs fh = (fh_idx fh < 0 \<or> fh_idx fh \<ge> int MAX_FILES \<or> used (fs ! nat (fh_idx fh)) = 0)"

text \<open>
  \<open>my_read\<close> returns the value of \<open>(int)r\<close> and the \<open>r\<close> bytes that \<open>fread\<close> put into
  \<open>buf\<close>. The comparison \<open>offset >= fe->size\<close> is one of \<open>long\<close> values; the sum
  \<open>offset + size\<close> is an \<open>unsigned long\<close>.
\<close>

definition my_read :: "io_env \<Rightarrow> 64 word \<Rightarrow> 64 word \<Rightarrow> 64 word \<Rightarrow> fs_state \<Rightarrow> error + int \<times> char list" where
  "my_read env fh sz offset st =
     (if bad_fh (g_files st) fh then Inl EBADF
      else
        (let idx = nat (fh_idx fh);
             fe = g_files st ! idx
         in if uint (fsize fe) \<le> sint offset then Inr (0, [])
            else
              (let sz' = (if offset + sz > ucast (fsize fe) then ucast (fsize fe) - offset else sz);
                   file_offset = (ucast ((ucast (region_start idx) :: 64 word) + offset) :: 32 word)
               in if \<not> seek_ok env then Inl EIO
                  else
                    (let bs = take (data_xfer env) (read_at (g_fs_file st) (unat file_offset) (unat sz'))
                     in Inr (sint (of_nat (length bs) :: 32 word), bs)))))"

text \<open>
  \<open>my_write\<close> gets the \<open>size\<close> bytes of \<open>buf\<close> as a list; \<open>size\<close> is its length as a
  \<open>size_t\<close>.
\<close>

definition my_write :: "io_env \<Rightarrow> 64 word \<Rightarrow> char list \<Rightarrow> 64 word \<Rightarrow> fs_state \<Rightarrow> (error + int) \<times> fs_state" where
  "my_write env fh buf offset st =
     (if bad_fh (g_files st) fh then (Inl EBADF, st)
      else
        (let sz = (of_nat (length buf) :: 64 word);
             idx = nat (fh_idx fh);
             fe = g_files st ! idx
         in if offset + sz > of_nat FILE_REGION_SIZE then (Inl ENOSPC, st)
            else
              (let file_offset = (ucast ((ucast (region_start idx) :: 64 word) + offset) :: 32 word)
               in if \<not> seek_ok env then (Inl EIO, st)
                  else
                    (let w = min (data_xfer env) (unat sz);
                         st1 = st\<lparr>g_fs_file := write_at (g_fs_file st) (unat file_offset) (take w buf)\<rparr>
                     in if w \<noteq> unat sz then (Inl EIO, st1)
                        else
                          (let new_end = (ucast (offset + sz) :: 32 word);
                               fe1 = (if new_end > fsize fe then fe\<lparr>fsize := new_end\<rparr> else fe);
                               fe2 = fe1\<lparr>mtime := ucast (now env)\<rparr>;
                               st2 = st1\<lparr>g_files := (g_files st1)[idx := fe2]\<rparr>
                           in sync_return env (sint (of_nat w :: 32 word))
                                (fs_recompute_last_alloc st2))))))"

definition my_create :: "io_env \<Rightarrow> char list \<Rightarrow> 32 word \<Rightarrow> fs_state \<Rightarrow> (error + nat) \<times> fs_state" where
  "my_create env path mode st =
     (let filename = skip_slash path in
      case find_file_by_name (g_files st) path of
        Some idx \<Rightarrow> (Inr idx, st)
      | None \<Rightarrow>
          (case alloc_file_slot (g_files st) of
             None \<Rightarrow> (Inl ENOSPC, st)
           | Some idx \<Rightarrow>
               (let fe = (g_files st ! idx)
                      \<lparr>used := 1,
                       name := strncpy (replicate NAME_MAX_LEN NUL) filename (NAME_MAX_LEN - 1),
                       fsize := 0, perms := mode, mtime := ucast (now env), start := 0\<rparr>;
                    st1 = st\<lparr>g_files := (g_files st)[idx := fe],
                             g_super := (g_super st)\<lparr>file_count := file_count (g_super st) + 1\<rparr>\<rparr>
                in sync_return env idx (fs_recompute_last_alloc st1))))"

definition my_unlink :: "io_env \<Rightarrow> char list \<Rightarrow> fs_state \<Rightarrow> (error + unit) \<times> fs_state" where
  "my_unlink env path st =
     (case find_file_by_name (g_files st) path of
        None \<Rightarrow> (Inl ENOENT, st)
      | Some idx \<Rightarrow>
          (let st1 = st\<lparr>g_files := (g_files st)[idx := zero_entry],
                       g_super := (g_super st)\<lparr>file_count := file_count (g_super st) - 1\<rparr>\<rparr>
           in sync_return env () (fs_recompute_last_alloc st1)))"

text \<open>In \<open>size > FILE_REGION_SIZE\<close> the \<open>off_t\<close> is converted to \<open>unsigned long\<close>.\<close>

definition my_truncate :: "io_env \<Rightarrow> char list \<Rightarrow> 64 word \<Rightarrow> fs_state \<Rightarrow> (error + unit) \<times> fs_state" where
  "my_truncate env path sz st =
     (case find_file_by_name (g_files st) path of
        None \<Rightarrow> (Inl ENOENT, st)
      | Some idx \<Rightarrow>
          if sz > of_nat FILE_REGION_SIZE then (Inl ENOSPC, st)
          else
            (let fe = (g_files st ! idx)\<lparr>fsize := ucast sz, mtime := ucast (now env)\<rparr>;
                 st1 = st\<lparr>g_files := (g_files st)[idx := fe]\<rparr>
             in sync_return env () (fs_recompute_last_alloc st1)))"

definition my_release :: "fs_state \<Rightarrow> (error + unit) \<times> fs_state" where
  "my_release st = (Inr (), st)"

text \<open>
  The table \<open>my_oper\<close>: a request of the bridge is one of the nine callbacks with
  its arguments, and the answer is what the callback hands back.
\<close>

datatype fs_op =
    Getattr "char list"
  | Readdir "char list"
  | Open "char list" "32 word"
  | Read "64 word" "64 word" "64 word"
  | Write "64 word" "char list" "64 word"
  | Create "char list" "32 word"
  | Unlink "char list"
  | Truncate "char list" "64 word"
  | Release

datatype reply =
    Attr stat
  | Names "char list list"
  | Handle nat
  | Data int "char list"
  | Count int
  | Done

definition with_reply :: "('a \<Rightarrow> reply) \<Rightarrow> (error + 'a) \<times> fs_state \<Rightarrow> (error + reply) \<times> fs_state" where
  "with_reply f r = (map_sum id f (fst r), snd r)"

fun my_oper :: "io_env \<Rightarrow> fs_op \<Rightarrow> fs_state \<Rightarrow> (error + reply) \<times> fs_state" where
  "my_oper env (Getattr path) st = (map_sum id Attr (my_getattr st path), st)"
| "my_oper env (Readdir path) st = (map_sum id Names (my_readdir st path), st)"
| "my_oper env (Open path flags) st = with_reply Handle (my_open env path flags st)"
| "my_oper env (Read fh sz offset) st =
     (map_sum id (\<lambda>(r, bs). Data r bs) (my_read env fh sz offset st), st)"
| "my_oper env (Write fh buf offset) st = with_reply Count (my_write env fh buf offset st)"
| "my_oper env (Create path mode) st = with_reply Handle (my_create env path mode st)"
| "my_oper env (Unlink path) st = with_reply (\<lambda>_. Done) (my_unlink env path st)"
| "my_oper env (Truncate path sz) st = with_reply (\<lambda>_. Done) (my_truncate env path sz st)"
| "my_oper env Release st = with_reply (\<lambda>_. Done) (my_release st)"

section \<open>Specification-side definitions and example states\<close>

text \<open>The slots below \<open>n\<close> that the loop of \<open>fs_recompute_last_alloc\<close> takes into
  account.\<close>

definition live :: "FileEntry list \<Rightarrow> nat \<Rightarrow> nat set" where
  "live fs n = {i. i < n \<and> used (fs ! i) \<noteq> 0 \<and> fsize (fs ! i) \<noteq> 0}"

text \<open>
  The high-water mark in the words of the specification: the maximum, over all used
  entries, of \<open>data_region_start + slot_index * slot_size + entry.size\<close>, and
  \<open>data_region_start\<close> when no entry is used.
\<close>

definition spec_high_water_mark :: "FileEntry list \<Rightarrow> nat" where
  "spec_high_water_mark fs =
     Max (set (DATA_OFFSET #
       map (\<lambda>i. DATA_OFFSET + i * FILE_REGION_SIZE + unat (fsize (fs ! i)))
         (filter (\<lambda>i. used (fs ! i) \<noteq> 0) [0..<MAX_FILES])))"

text \<open>
  The shape of the C array \<open>FileEntry g_files[MAX_FILES]\<close>: \<open>MAX_FILES\<close> entries, each
  with a name buffer of \<open>NAME_MAX_LEN\<close> characters.
\<close>

definition wf_table :: "FileEntry list \<Rightarrow> bool" where
  "wf_table fs \<longleftrightarrow> length fs = MAX_FILES \<and> (\<forall>e\<in>set fs. length (name e) = NAME_MAX_LEN)"

text \<open>
  The test of the loop in \<open>find_file_by_name\<close> for slot \<open>i\<close>, with the call of
  \<open>strncmp\<close> read as a comparison of the two strings cut at \<open>NAME_MAX_LEN\<close> characters.
\<close>

definition name_match :: "FileEntry list \<Rightarrow> char list \<Rightarrow> nat \<Rightarrow> bool" where
  "name_match fs nm i \<longleftrightarrow>
     used (fs ! i) \<noteq> 0 \<and>
     take NAME_MAX_LEN (c_str (name (fs ! i))) = take NAME_MAX_LEN (c_str (skip_slash nm))"

text \<open>
  Example data: the entry that \<open>my_open\<close> creates for a name, with a given size; an
  environment in which every call succeeds; the state around a file table as the
  program leaves it, with the high-water mark recomputed and the metadata written
  to a backing file whose data region is blank; the table with a file \<open>a\<close> of ten
  bytes in slot 0 and an empty file \<open>b\<close> in slot 1.
\<close>

definition ex_entry :: "char list \<Rightarrow> 32 word \<Rightarrow> FileEntry" where
  "ex_entry nm sz =
     \<lparr>used = 1, name = strncpy (replicate NAME_MAX_LEN NUL) nm (NAME_MAX_LEN - 1),
      start = 0, fsize = sz, perms = 0x1A4, mtime = 0x65000000\<rparr>"

definition ex_env :: io_env where
  "ex_env = \<lparr>seek_ok = True, data_xfer = FS_SIZE, meta_xfer = META_SIZE, now = 0x65000000\<rparr>"

definition ex_state :: "FileEntry list \<Rightarrow> fs_state" where
  "ex_state fs =
     snd (sync_return ex_env ()
       (fs_recompute_last_alloc
          \<lparr>g_super = \<lparr>magic = FS_MAGIC, version = FS_VERSION, last_alloc = 0,
                       file_count = of_nat (length (filter (\<lambda>e. used e \<noteq> 0) fs))\<rparr>,
           g_files = fs, g_fs_file = replicate FS_SIZE NUL\<rparr>))"

definition ex_two :: "FileEntry list" where
  "ex_two = (replicate MAX_FILES zero_entry)[0 := ex_entry ''a'' 10, 1 := ex_entry ''b'' 0]"

text \<open>
  A full table: slot \<open>i\<close> holds the empty file named \<open>f\<close> followed by the character
  with code \<open>65 + i\<close>.
\<close>

definition ex_full :: "FileEntry list" where
  "ex_full = map (\<lambda>i. ex_entry [CHR ''f'', char_of (65 + i)] 0) [0..<MAX_FILES]"

text \<open>
  Every used entry holds a terminated name: the string in its name buffer is
  shorter than the buffer. \<open>my_open\<close> and \<open>my_create\<close> write such names only.
\<close>

definition names_terminated :: "FileEntry list \<Rightarrow> bool" where
  "names_terminated fs \<longleftrightarrow>
     (\<forall>i<MAX_FILES. used (fs ! i) \<noteq> 0 \<longrightarrow> length (c_str (name (fs ! i))) < NAME_MAX_LEN)"

text \<open>A path whose name has 32 characters, and the file table after \<open>fs_format\<close>.\<close>

definition ex_long :: "char list" where
  "ex_long = CHR ''/'' # replicate 32 (CHR ''a'')"

definition ex_fresh :: "FileEntry list" where
  "ex_fresh = replicate MAX_FILES zero_entry"

text \<open>
  The state invariant of the specification: \<open>file_count\<close> is the number of used
  entries, \<open>last_alloc\<close> is not below \<open>DATA_OFFSET\<close>, the size of every used entry is
  within the slot capacity, and the names of the used entries are distinct.
\<close>

definition used_count :: "FileEntry list \<Rightarrow> nat" where
  "used_count fs = length (filter (\<lambda>e. used e \<noteq> 0) fs)"

definition fs_inv :: "fs_state \<Rightarrow> bool" where
  "fs_inv st \<longleftrightarrow>
     unat (file_count (g_super st)) = used_count (g_files st) \<and>
     DATA_OFFSET \<le> unat (last_alloc (g_super st)) \<and>
     list_all (\<lambda>e. used e = 0 \<or> unat (fsize e) \<le> FILE_REGION_SIZE) (g_files st) \<and>
     distinct (map (\<lambda>e. c_str (name e)) (filter (\<lambda>e. used e \<noteq> 0) (g_files st)))"

text \<open>
  The entry that \<open>my_create\<close> stores for \<open>ex_long\<close> in the environment \<open>ex_env\<close>, and
  the states after \<open>fs_format\<close> and one and two calls of \<open>my_create\<close> for \<open>ex_long\<close>.
\<close>

definition ex_long_entry :: FileEntry where
  "ex_long_entry =
     \<lparr>used = 1, name = replicate 31 (CHR ''a'') @ [NUL], start = 0, fsize = 0, perms = 0x1A4,
      mtime = 0x65000000\<rparr>"

definition ex_long_once :: fs_state where
  "ex_long_once = snd (my_create ex_env ex_long 0x1A4 (snd (fs_format ex_env True)))"

definition ex_long_twice :: fs_state where
  "ex_long_twice = snd (my_create ex_env ex_long 0x1A4 ex_long_once)"

text \<open>
  The requests whose path, where it names a file to create, has a name shorter than
  the name buffer.
\<close>

fun short_name_op :: "fs_op \<Rightarrow> bool" where
  "short_name_op (Create path mode) = (length (c_str (skip_slash path)) < NAME_MAX_LEN)"
| "short_name_op (Open path flags) = (length (c_str (skip_slash path)) < NAME_MAX_LEN)"
| "short_name_op _ = True"

section \<open>States that differ in the stored modes\<close>

text \<open>
  \<open>perms\<close> is written by \<open>my_create\<close> (the \<open>mode\<close> argument) and by \<open>my_open\<close> (0644)
  and goes to the backing file with the rest of the table in \<open>fs_sync_metadata\<close>.
  \<open>no_perms\<close> blanks the field; two states are \<open>perms_equiv\<close> when they have the
  same superblock, the same table up to the \<open>perms\<close> fields and the same bytes in the
  backing file from \<open>DATA_OFFSET\<close> on (the bytes before \<open>DATA_OFFSET\<close> are the image of
  the superblock and of the table). \<open>same_result\<close> compares what two calls hand back
  and the states they leave.
\<close>

definition no_perms :: "FileEntry \<Rightarrow> FileEntry" where
  "no_perms e = e\<lparr>perms := 0\<rparr>"

definition perms_equiv :: "fs_state \<Rightarrow> fs_state \<Rightarrow> bool" where
  "perms_equiv st' st \<longleftrightarrow>
     g_super st' = g_super st \<and>
     map no_perms (g_files st') = map no_perms (g_files st) \<and>
     drop DATA_OFFSET (g_fs_file st') = drop DATA_OFFSET (g_fs_file st)"

definition same_result :: "'a \<times> fs_state \<Rightarrow> 'a \<times> fs_state \<Rightarrow> bool" where
  "same_result r' r \<longleftrightarrow> fst r' = fst r \<and> perms_equiv (snd r') (snd r)"

text \<open>
  The used entries of a table have sizes of at most \<open>FILE_REGION_SIZE\<close> (the third
  part of \<open>fs_inv\<close>), and a request to read is one at an offset that is not negative.
\<close>

definition sizes_bounded :: "FileEntry list \<Rightarrow> bool" where
  "sizes_bounded fs \<longleftrightarrow> list_all (\<lambda>e. used e = 0 \<or> unat (fsize e) \<le> FILE_REGION_SIZE) fs"

fun offset_ok :: "fs_op \<Rightarrow> bool" where
  "offset_ok (Read fh sz offset) = (0 \<le> sint offset)"
| "offset_ok _ = True"

text \<open>The table \<open>ex_two\<close> with mode 0700 stored for the file \<open>a\<close>.\<close>

definition ex_two_0700 :: "FileEntry list" where
  "ex_two_0700 = ex_two[0 := (ex_two ! 0)\<lparr>perms := 0x1C0\<rparr>]"

text \<open>
  The bridge calls the callbacks one after the other: \<open>run\<close> answers a list of
  requests, each with the behaviour of the storage and the clock at that call, and
  gives the answers and the last state.
\<close>

fun run :: "(io_env \<times> fs_op) list \<Rightarrow> fs_state \<Rightarrow> (error + reply) list \<times> fs_state" where
  "run [] st = ([], st)"
| "run (c # cs) st =
     (let r = my_oper (fst c) (snd c) st; rs = run cs (snd r)
      in (fst r # fst rs, snd rs))"

section \<open>Facts about the layout\<close>

lemma META_SIZE_val: "META_SIZE = 3152"
  by (simp add: META_SIZE_def sizeof_Superblock_def sizeof_FileEntry_def NAME_MAX_LEN_def MAX_FILES_def)

lemma DATA_OFFSET_val: "DATA_OFFSET = 3152"
  by (simp add: DATA_OFFSET_def META_SIZE_val)

lemma FILE_REGION_SIZE_val: "FILE_REGION_SIZE = 16334"
  by (simp add: FILE_REGION_SIZE_def FS_SIZE_def DATA_OFFSET_val MAX_FILES_def)

lemma region_end_bound:
  assumes "i < MAX_FILES" "n \<le> FILE_REGION_SIZE"
  shows "DATA_OFFSET + i * FILE_REGION_SIZE + n \<le> 1048528"
proof -
  have "i * FILE_REGION_SIZE \<le> 63 * FILE_REGION_SIZE"
    using assms(1) by (intro mult_le_mono1) (simp add: MAX_FILES_def)
  then show ?thesis
    using assms(2) by (simp add: DATA_OFFSET_val FILE_REGION_SIZE_val)
qed

lemma unat_region_start:
  assumes "i < MAX_FILES"
  shows "unat (region_start i) = DATA_OFFSET + i * FILE_REGION_SIZE"
proof -
  have "DATA_OFFSET + i * FILE_REGION_SIZE + 0 \<le> 1048528"
    using assms by (intro region_end_bound) simp_all
  then have "DATA_OFFSET + i * FILE_REGION_SIZE < 2 ^ 32" by simp
  then show ?thesis
    unfolding region_start_def by (intro of_nat_inverse [OF refl]) simp
qed

lemma unat_region_end:
  assumes "i < MAX_FILES" "unat (n :: 32 word) \<le> FILE_REGION_SIZE"
  shows "unat (region_start i + n) = DATA_OFFSET + i * FILE_REGION_SIZE + unat n"
proof -
  have "DATA_OFFSET + i * FILE_REGION_SIZE + unat n \<le> 1048528"
    using assms by (rule region_end_bound)
  then have "unat (region_start i) + unat n < 2 ^ 32"
    using assms(1) by (simp add: unat_region_start)
  then show ?thesis
    using assms(1) by (simp add: unat_add_lem [THEN iffD1] unat_region_start)
qed

section \<open>C strings\<close>

lemma of_char_pos: "c \<noteq> NUL \<Longrightarrow> 0 < (of_char c :: nat)"
  using of_char_eq_iff [of c NUL, where ?'a = nat] by simp

lemma strncmp_0_iff: "strncmp a b n = 0 \<longleftrightarrow> take n (c_str a) = take n (c_str b)"
proof (induction n arbitrary: a b)
  case 0
  show ?case by simp
next
  case (Suc n)
  show ?case
    using Suc.IH [of "tl a" "tl b"]
    by (cases a; cases b) (auto simp: c_str_def char_at0_def dest: of_char_pos)
qed

section \<open>The high-water mark\<close>

lemma live_Suc:
  "live fs (Suc n) = (if used (fs ! n) \<noteq> 0 \<and> fsize (fs ! n) \<noteq> 0 then insert n (live fs n) else live fs n)"
  by (auto simp: live_def less_Suc_eq)

lemma finite_live: "finite (live fs n)"
  by (simp add: live_def)

lemma foldl_last_alloc_step:
  "foldl (last_alloc_step fs) a [0..<n] =
     Max (insert a ((\<lambda>i. region_start i + fsize (fs ! i)) ` live fs n))"
proof (induction n)
  case 0
  show ?case by (simp add: live_def)
next
  case (Suc n)
  let ?E = "\<lambda>i. region_start i + fsize (fs ! i)"
  have fin: "finite (insert a (?E ` live fs n))"
    by (simp add: finite_live)
  show ?case
  proof (cases "used (fs ! n) \<noteq> 0 \<and> fsize (fs ! n) \<noteq> 0")
    case True
    have "foldl (last_alloc_step fs) a [0..<Suc n] =
        last_alloc_step fs (foldl (last_alloc_step fs) a [0..<n]) n"
      by simp
    also have "\<dots> = max (?E n) (foldl (last_alloc_step fs) a [0..<n])"
      using True by (auto simp: last_alloc_step_def Let_def max_def word_greater_zero_iff)
    also have "\<dots> = max (?E n) (Max (insert a (?E ` live fs n)))"
      by (simp only: Suc.IH)
    also have "\<dots> = Max (insert (?E n) (insert a (?E ` live fs n)))"
      using fin by (subst Max_insert) auto
    also have "insert (?E n) (insert a (?E ` live fs n)) = insert a (?E ` live fs (Suc n))"
      using True by (auto simp: live_Suc)
    finally show ?thesis .
  next
    case False
    have "foldl (last_alloc_step fs) a [0..<Suc n] =
        last_alloc_step fs (foldl (last_alloc_step fs) a [0..<n]) n"
      by simp
    also have "\<dots> = foldl (last_alloc_step fs) a [0..<n]"
      using False by (auto simp: last_alloc_step_def word_greater_zero_iff)
    finally show ?thesis
      using False by (simp only: Suc.IH live_Suc if_False)
  qed
qed


lemma unat_Max_word:
  fixes A :: "32 word set"
  assumes "finite A" "A \<noteq> {}"
  shows "unat (Max A) = Max (unat ` A)"
  by (rule mono_Max_commute) (auto simp: mono_def word_le_nat_alt assms)

lemma last_alloc_recompute:
  "last_alloc (g_super (fs_recompute_last_alloc st)) =
     Max (insert (of_nat DATA_OFFSET) ((\<lambda>i. region_start i + fsize (g_files st ! i)) ` live (g_files st) MAX_FILES))"
  by (simp add: fs_recompute_last_alloc_def foldl_last_alloc_step)

lemma spec_high_water_mark_set:
  "spec_high_water_mark fs =
     Max (insert DATA_OFFSET
       ((\<lambda>i. DATA_OFFSET + i * FILE_REGION_SIZE + unat (fsize (fs ! i))) `
          {i. i < MAX_FILES \<and> used (fs ! i) \<noteq> 0}))"
proof -
  have "{x \<in> {0..<MAX_FILES}. used (fs ! x) \<noteq> 0} = {i. i < MAX_FILES \<and> used (fs ! i) \<noteq> 0}"
    by auto
  then show ?thesis
    by (simp add: spec_high_water_mark_def)
qed

lemma ex_two_nth:
  "i < MAX_FILES \<Longrightarrow> ex_two ! i = (if i = 1 then ex_entry ''b'' 0 else if i = 0 then ex_entry ''a'' 10 else zero_entry)"
  by (simp add: ex_two_def nth_list_update)

section \<open>The file table helpers\<close>

lemma find_upt_None: "find P [0..<n] = None \<longleftrightarrow> (\<forall>i<n. \<not> P i)"
  by (auto simp: find_None_iff)

lemma find_upt_Some: "find P [0..<n] = Some i \<longleftrightarrow> i < n \<and> P i \<and> (\<forall>j<i. \<not> P j)"
  by (auto simp: find_Some_iff)

lemma find_file_by_name_None:
  "find_file_by_name fs nm = None \<longleftrightarrow> (\<forall>i<MAX_FILES. \<not> name_match fs nm i)"
  by (simp add: find_file_by_name_def find_upt_None name_match_def strncmp_0_iff)

lemma find_file_by_name_Some:
  "find_file_by_name fs nm = Some i \<longleftrightarrow>
     i < MAX_FILES \<and> name_match fs nm i \<and> (\<forall>j<i. \<not> name_match fs nm j)"
  by (simp add: find_file_by_name_def find_upt_Some name_match_def strncmp_0_iff)

lemma alloc_file_slot_None:
  "alloc_file_slot fs = None \<longleftrightarrow> (\<forall>i<MAX_FILES. used (fs ! i) \<noteq> 0)"
  by (simp add: alloc_file_slot_def find_upt_None)

lemma alloc_file_slot_Some:
  "alloc_file_slot fs = Some i \<longleftrightarrow> i < MAX_FILES \<and> used (fs ! i) = 0 \<and> (\<forall>j<i. used (fs ! j) \<noteq> 0)"
  by (simp add: alloc_file_slot_def find_upt_Some)

section \<open>Metadata and the backing file\<close>

lemma length_le32: "length (le32 w) = 4"
  by (simp add: le32_def)

lemma length_Superblock_bytes: "length (Superblock_bytes s) = sizeof_Superblock"
  by (simp add: Superblock_bytes_def length_le32 sizeof_Superblock_def)

lemma length_FileEntry_bytes:
  "length (name e) = NAME_MAX_LEN \<Longrightarrow> length (FileEntry_bytes e) = sizeof_FileEntry"
  by (simp add: FileEntry_bytes_def length_le32 sizeof_FileEntry_def)

lemma length_concat_const:
  "(\<forall>x\<in>set xs. length (f x) = k) \<Longrightarrow> length (concat (map f xs)) = k * length xs"
  by (induction xs) auto

lemma length_meta_bytes:
  assumes "wf_table (g_files st)"
  shows "length (meta_bytes st) = META_SIZE"
proof -
  have "length (concat (map FileEntry_bytes (g_files st))) = sizeof_FileEntry * length (g_files st)"
    using assms by (intro length_concat_const) (simp add: wf_table_def length_FileEntry_bytes)
  then show ?thesis
    using assms by (simp add: meta_bytes_def length_Superblock_bytes META_SIZE_def wf_table_def)
qed

lemma write_at_length:
  "length (write_at f pos bs) = max (length f) (pos + length bs)"
  by (auto simp: write_at_def)

lemma read_at_write_at_same:
  "read_at (write_at f pos bs) pos (length bs) = bs"
  by (simp add: read_at_def write_at_def)

lemma read_at_write_at_0:
  "length img \<le> pos \<Longrightarrow> read_at (write_at f 0 img) pos n = read_at f pos n"
  by (simp add: read_at_def write_at_def)

lemma drop_write_at_0:
  "length bs \<le> n \<Longrightarrow> drop n (write_at f 0 bs) = drop n f"
  by (simp add: write_at_def)

lemma g_files_recompute [simp]: "g_files (fs_recompute_last_alloc st) = g_files st"
  by (simp add: fs_recompute_last_alloc_def)

lemma g_fs_file_recompute [simp]: "g_fs_file (fs_recompute_last_alloc st) = g_fs_file st"
  by (simp add: fs_recompute_last_alloc_def)

lemma file_count_recompute [simp]:
  "file_count (g_super (fs_recompute_last_alloc st)) = file_count (g_super st)"
  by (simp add: fs_recompute_last_alloc_def)

lemma magic_recompute [simp]:
  "magic (g_super (fs_recompute_last_alloc st)) = magic (g_super st)"
  by (simp add: fs_recompute_last_alloc_def)

lemma version_recompute [simp]:
  "version (g_super (fs_recompute_last_alloc st)) = version (g_super st)"
  by (simp add: fs_recompute_last_alloc_def)

lemma snd_sync_return:
  "snd (sync_return env r st) =
     st\<lparr>g_fs_file := write_at (g_fs_file st) 0 (take (meta_xfer env) (meta_bytes st))\<rparr>"
  by (simp add: sync_return_def fs_sync_metadata_def Let_def)

lemma fst_sync_return:
  "fst (sync_return env r st) =
     (if meta_xfer env < sizeof_Superblock \<or> meta_xfer env < length (meta_bytes st)
      then Inl FATAL else Inr r)"
  by (simp add: sync_return_def fs_sync_metadata_def Let_def)

lemma fst_sync_return_wf:
  assumes "wf_table (g_files st)"
  shows "fst (sync_return env r st) = (if meta_xfer env < META_SIZE then Inl FATAL else Inr r)"
  using length_meta_bytes [OF assms]
  by (auto simp: fst_sync_return META_SIZE_val sizeof_Superblock_def)

lemma drop_meta_sync_return:
  assumes "wf_table (g_files st)"
  shows "drop META_SIZE (g_fs_file (snd (sync_return env r st))) = drop META_SIZE (g_fs_file st)"
  using length_meta_bytes [OF assms]
  by (simp add: snd_sync_return drop_write_at_0)

lemma wf_table_update:
  "wf_table fs \<Longrightarrow> length (name e) = NAME_MAX_LEN \<Longrightarrow> wf_table (fs[i := e])"
  by (auto simp: wf_table_def dest!: set_update_subset_insert [THEN subsetD])

lemma wf_zero_entry: "length (name zero_entry) = NAME_MAX_LEN"
  by (simp add: zero_entry_def)

section \<open>Example states\<close>

lemma c_str_no_NUL: "NUL \<notin> set s \<Longrightarrow> c_str (s @ replicate n NUL) = s"
  by (induction s) (auto simp: c_str_def takeWhile_replicate)

lemma NUL_notin_c_str: "NUL \<notin> set (c_str s)"
  by (auto simp: c_str_def dest: set_takeWhileD)

lemma c_str_simps:
  "c_str [] = []"
  "c_str (c # s) = (if c = NUL then [] else c # c_str s)"
  by (simp_all add: c_str_def)

lemma c_str_strncpy:
  assumes "n < m"
  shows "c_str (strncpy (replicate m NUL) nm n) = take n (c_str nm)"
proof -
  have "NUL \<notin> set (take n (c_str nm))"
    using NUL_notin_c_str by (auto dest: in_set_takeD)
  then show ?thesis
    by (simp add: strncpy_def Let_def replicate_add [symmetric] c_str_no_NUL)
qed

lemma length_strncpy:
  "n \<le> m \<Longrightarrow> length (strncpy (replicate m NUL) nm n) = m"
  by (simp add: strncpy_def Let_def)

lemma ex_entry_simps [simp]:
  "used (ex_entry nm sz) = 1"
  "c_str (name (ex_entry nm sz)) = take 31 (c_str nm)"
  "length (name (ex_entry nm sz)) = NAME_MAX_LEN"
  "fsize (ex_entry nm sz) = sz"
  by (simp_all add: ex_entry_def c_str_strncpy length_strncpy NAME_MAX_LEN_def)

lemma zero_entry_simps [simp]:
  "used zero_entry = 0" "fsize zero_entry = 0" "length (name zero_entry) = NAME_MAX_LEN"
  by (simp_all add: zero_entry_def)

lemma wf_ex_two: "wf_table ex_two"
  by (auto simp: ex_two_def wf_table_def dest!: set_update_subset_insert [THEN subsetD])

lemma g_files_ex_state [simp]: "g_files (ex_state fs) = fs"
  by (simp add: ex_state_def snd_sync_return)

lemma file_count_ex_state [simp]:
  "file_count (g_super (ex_state fs)) = of_nat (length (filter (\<lambda>e. used e \<noteq> 0) fs))"
  by (simp add: ex_state_def snd_sync_return)

lemma last_alloc_ex_state:
  "last_alloc (g_super (ex_state fs)) =
     Max (insert (of_nat DATA_OFFSET) ((\<lambda>i. region_start i + fsize (fs ! i)) ` live fs MAX_FILES))"
  by (simp add: ex_state_def snd_sync_return last_alloc_recompute)

lemma length_g_fs_file_ex_state:
  assumes "wf_table fs"
  shows "length (g_fs_file (ex_state fs)) = FS_SIZE"
proof -
  have "length (meta_bytes (fs_recompute_last_alloc
          \<lparr>g_super = \<lparr>magic = FS_MAGIC, version = FS_VERSION, last_alloc = 0,
                       file_count = of_nat (length (filter (\<lambda>e. used e \<noteq> 0) fs))\<rparr>,
           g_files = fs, g_fs_file = replicate FS_SIZE NUL\<rparr>)) = META_SIZE"
    using assms by (intro length_meta_bytes) simp
  then show ?thesis
    by (simp add: ex_state_def snd_sync_return write_at_length META_SIZE_val FS_SIZE_def)
qed

lemma read_at_ex_state:
  assumes "wf_table fs" "META_SIZE \<le> pos" "pos + n \<le> FS_SIZE"
  shows "read_at (g_fs_file (ex_state fs)) pos n = replicate n NUL"
proof -
  have "length (meta_bytes (fs_recompute_last_alloc
          \<lparr>g_super = \<lparr>magic = FS_MAGIC, version = FS_VERSION, last_alloc = 0,
                       file_count = of_nat (length (filter (\<lambda>e. used e \<noteq> 0) fs))\<rparr>,
           g_files = fs, g_fs_file = replicate FS_SIZE NUL\<rparr>)) = META_SIZE"
    using assms(1) by (intro length_meta_bytes) simp
  then have "read_at (g_fs_file (ex_state fs)) pos n = read_at (replicate FS_SIZE NUL) pos n"
    using assms(2) by (simp add: ex_state_def snd_sync_return read_at_write_at_0)
  then show ?thesis
    using assms(3) by (simp add: read_at_def min_def)
qed

lemma find_a_ex_two: "find_file_by_name ex_two ''/a'' = Some 0"
  by (simp add: find_file_by_name_Some name_match_def ex_two_nth MAX_FILES_def skip_slash_def
      char_at0_def c_str_simps NAME_MAX_LEN_def)

lemma find_zz_ex_two: "find_file_by_name ex_two ''/zz'' = None"
  by (simp add: find_file_by_name_None name_match_def ex_two_nth skip_slash_def
      char_at0_def c_str_simps NAME_MAX_LEN_def)

lemma ex_full_nth: "i < MAX_FILES \<Longrightarrow> ex_full ! i = ex_entry [CHR ''f'', char_of (65 + i)] 0"
  by (simp add: ex_full_def)

lemma wf_ex_full: "wf_table ex_full"
  by (auto simp: ex_full_def wf_table_def)

lemma full_ex_full: "\<forall>i<MAX_FILES. used (ex_full ! i) \<noteq> 0"
  by (simp add: ex_full_nth)

lemma find_new_ex_full: "find_file_by_name ex_full ''/new'' = None"
  by (simp add: find_file_by_name_None name_match_def ex_full_nth skip_slash_def
      char_at0_def c_str_simps NAME_MAX_LEN_def)

lemma char_of_65: "char_of (65 :: nat) = CHR ''A''"
  by (simp add: char_of_def bit_Suc_0_iff)

lemma length_ex_full: "length ex_full = MAX_FILES"
  by (simp add: ex_full_def)

lemma find_fA_ex_full: "find_file_by_name ex_full ''/fA'' = Some 0"
  by (simp add: find_file_by_name_Some name_match_def ex_full_nth skip_slash_def
      char_at0_def c_str_simps NAME_MAX_LEN_def MAX_FILES_def char_of_65)

lemma find_new_ex_full_unlinked: "find_file_by_name (ex_full[0 := zero_entry]) ''/new'' = None"
  by (simp add: find_file_by_name_None name_match_def ex_full_nth skip_slash_def nth_list_update
      length_ex_full char_at0_def c_str_simps NAME_MAX_LEN_def)

section \<open>Recomputing the high-water mark\<close>

text \<open>
  C5, as amended. \<open>fs_recompute_last_alloc\<close> sets \<open>last_alloc\<close> to the maximum of
  \<open>DATA_OFFSET + i * FILE_REGION_SIZE + size\<close> over the used entries whose size is not
  zero, and to \<open>DATA_OFFSET\<close> when there is none: a used entry of size zero does not
  contribute (the loop tests \<open>g_files[i].size > 0\<close>). The sizes are those of a table
  that respects the slot capacity, so that the 32-bit sums do not wrap.
\<close>

theorem recompute_high_water_mark:
  assumes "\<forall>i<MAX_FILES. used (g_files st ! i) \<noteq> 0 \<longrightarrow> unat (fsize (g_files st ! i)) \<le> FILE_REGION_SIZE"
  shows "unat (last_alloc (g_super (fs_recompute_last_alloc st))) =
           Max (insert DATA_OFFSET
             ((\<lambda>i. DATA_OFFSET + i * FILE_REGION_SIZE + unat (fsize (g_files st ! i))) `
                {i. i < MAX_FILES \<and> used (g_files st ! i) \<noteq> 0 \<and> fsize (g_files st ! i) \<noteq> 0}))"
proof -
  let ?fs = "g_files st"
  let ?E = "\<lambda>i. region_start i + fsize (?fs ! i)"
  let ?N = "\<lambda>i. DATA_OFFSET + i * FILE_REGION_SIZE + unat (fsize (?fs ! i))"
  have d: "unat (of_nat DATA_OFFSET :: 32 word) = DATA_OFFSET"
    by (simp add: DATA_OFFSET_val)
  have e: "unat (?E i) = ?N i" if "i \<in> live ?fs MAX_FILES" for i
    using that assms by (intro unat_region_end) (auto simp: live_def)
  have "unat (last_alloc (g_super (fs_recompute_last_alloc st))) =
          Max (unat ` insert (of_nat DATA_OFFSET) (?E ` live ?fs MAX_FILES))"
    unfolding last_alloc_recompute by (rule unat_Max_word) (simp_all add: finite_live)
  also have "unat ` insert (of_nat DATA_OFFSET) (?E ` live ?fs MAX_FILES) =
          insert DATA_OFFSET (?N ` live ?fs MAX_FILES)"
    using e by (simp add: d image_image cong: image_cong)
  finally show ?thesis
    by (simp only: live_def)
qed

text \<open>A witness for C5: the table \<open>ex_two\<close>, where the mark is \<open>DATA_OFFSET + 10\<close>.\<close>

theorem recompute_high_water_mark_witness:
  "unat (last_alloc (g_super (fs_recompute_last_alloc (ex_state ex_two)))) = 3162"
proof -
  have h: "\<forall>i<MAX_FILES. used (g_files (ex_state ex_two) ! i) \<noteq> 0 \<longrightarrow>
       unat (fsize (g_files (ex_state ex_two) ! i)) \<le> FILE_REGION_SIZE"
    by (simp add: ex_two_nth ex_entry_def zero_entry_def FILE_REGION_SIZE_val)
  have s: "{i. i < MAX_FILES \<and> used (g_files (ex_state ex_two) ! i) \<noteq> 0 \<and>
              fsize (g_files (ex_state ex_two) ! i) \<noteq> 0} = {0}"
    by (auto simp: ex_two_nth ex_entry_def zero_entry_def MAX_FILES_def split: if_splits)
  show ?thesis
    unfolding recompute_high_water_mark [OF h] s
    by (simp add: ex_two_nth ex_entry_def DATA_OFFSET_val MAX_FILES_def)
qed

text \<open>
  The counterexample to C5 as it was stated: in \<open>ex_two\<close> the used entry of slot 1 has
  size zero; the specification's maximum counts it and is \<open>DATA_OFFSET +
  FILE_REGION_SIZE\<close>, the code's is \<open>DATA_OFFSET + 10\<close>.
\<close>

theorem recompute_counts_empty_files_counterexample:
  "unat (last_alloc (g_super (fs_recompute_last_alloc (ex_state ex_two)))) \<noteq>
     spec_high_water_mark (g_files (ex_state ex_two))"
proof -
  have s: "{i. i < MAX_FILES \<and> used (ex_two ! i) \<noteq> 0} = {0, 1}"
    by (auto simp: ex_two_nth ex_entry_def zero_entry_def MAX_FILES_def split: if_splits)
  have l: "live ex_two MAX_FILES = {0}"
    by (auto simp: live_def ex_two_nth ex_entry_def zero_entry_def MAX_FILES_def split: if_splits)
  have "spec_high_water_mark ex_two = 19486"
    unfolding spec_high_water_mark_set s
    by (simp add: ex_two_nth ex_entry_def DATA_OFFSET_val FILE_REGION_SIZE_val MAX_FILES_def)
  moreover have g: "g_files (ex_state ex_two) = ex_two"
    by simp
  have "last_alloc (g_super (fs_recompute_last_alloc (ex_state ex_two))) = 3162"
    unfolding last_alloc_recompute g l
    by (simp add: ex_two_nth ex_entry_def DATA_OFFSET_val region_start_def MAX_FILES_def)
  ultimately show ?thesis
    by simp
qed

section \<open>Unlink\<close>

lemma my_unlink_found:
  assumes "find_file_by_name (g_files st) path = Some idx"
  shows "my_unlink env path st =
     sync_return env ()
       (fs_recompute_last_alloc
          (st\<lparr>g_files := (g_files st)[idx := zero_entry],
              g_super := (g_super st)\<lparr>file_count := file_count (g_super st) - 1\<rparr>\<rparr>))"
  using assms by (simp add: my_unlink_def)

lemma g_files_my_unlink:
  "find_file_by_name (g_files st) path = Some idx \<Longrightarrow>
   g_files (snd (my_unlink env path st)) = (g_files st)[idx := zero_entry]"
  by (simp add: my_unlink_found snd_sync_return)

lemma fst_my_unlink:
  assumes "wf_table (g_files st)" "find_file_by_name (g_files st) path = Some idx"
  shows "fst (my_unlink env path st) = (if meta_xfer env < META_SIZE then Inl FATAL else Inr ())"
  unfolding my_unlink_found [OF assms(2)]
  by (rule fst_sync_return_wf) (simp add: assms(1) wf_table_update)

text \<open>
  C8. For a name that \<open>find_file_by_name\<close> resolves to slot \<open>idx\<close>, \<open>my_unlink\<close>
  replaces that entry by the zeroed record (\<open>used\<close>, name, size, perms and mtime all
  zero) and leaves every other entry as it was, decrements \<open>file_count\<close> by one, and
  leaves every byte of the backing file from \<open>DATA_OFFSET\<close> on unchanged, the slot
  of the unlinked file included; it returns 0 unless writing the metadata fails,
  which ends the process. For a name that is not found it returns \<open>-ENOENT\<close> and
  changes nothing.
\<close>

theorem my_unlink_spec:
  assumes wf: "wf_table (g_files st)"
  shows "(find_file_by_name (g_files st) path = None \<longrightarrow>
            my_unlink env path st = (Inl ENOENT, st)) \<and>
         (\<forall>idx. find_file_by_name (g_files st) path = Some idx \<longrightarrow>
            fst (my_unlink env path st) = (if meta_xfer env < META_SIZE then Inl FATAL else Inr ()) \<and>
            g_files (snd (my_unlink env path st)) = (g_files st)[idx := zero_entry] \<and>
            file_count (g_super (snd (my_unlink env path st))) = file_count (g_super st) - 1 \<and>
            drop DATA_OFFSET (g_fs_file (snd (my_unlink env path st))) = drop DATA_OFFSET (g_fs_file st))"
proof (intro conjI allI impI)
  assume "find_file_by_name (g_files st) path = None"
  then show "my_unlink env path st = (Inl ENOENT, st)"
    by (simp add: my_unlink_def)
next
  fix idx
  assume f: "find_file_by_name (g_files st) path = Some idx"
  let ?st1 = "st\<lparr>g_files := (g_files st)[idx := zero_entry],
                 g_super := (g_super st)\<lparr>file_count := file_count (g_super st) - 1\<rparr>\<rparr>"
  have u: "my_unlink env path st = sync_return env () (fs_recompute_last_alloc ?st1)"
    using f by (simp add: my_unlink_def)
  have wf1: "wf_table (g_files (fs_recompute_last_alloc ?st1))"
    using wf by (simp add: wf_table_update wf_zero_entry)
  show "fst (my_unlink env path st) = (if meta_xfer env < META_SIZE then Inl FATAL else Inr ())"
    unfolding u by (rule fst_sync_return_wf [OF wf1])
  show "g_files (snd (my_unlink env path st)) = (g_files st)[idx := zero_entry]"
    unfolding u by (simp add: snd_sync_return)
  show "file_count (g_super (snd (my_unlink env path st))) = file_count (g_super st) - 1"
    unfolding u by (simp add: snd_sync_return)
  show "drop DATA_OFFSET (g_fs_file (snd (my_unlink env path st))) = drop DATA_OFFSET (g_fs_file st)"
    unfolding u DATA_OFFSET_def by (simp add: drop_meta_sync_return [OF wf1])
qed


text \<open>A witness for C8: unlinking the missing \<open>zz\<close> and the present \<open>a\<close> in \<open>ex_two\<close>.\<close>

theorem my_unlink_spec_witness:
  "my_unlink ex_env ''/zz'' (ex_state ex_two) = (Inl ENOENT, ex_state ex_two) \<and>
   fst (my_unlink ex_env ''/a'' (ex_state ex_two)) = Inr () \<and>
   g_files (snd (my_unlink ex_env ''/a'' (ex_state ex_two))) = ex_two[0 := zero_entry]"
  using my_unlink_spec [of "ex_state ex_two" "''/zz''" ex_env]
    my_unlink_spec [of "ex_state ex_two" "''/a''" ex_env]
  by (simp add: wf_ex_two find_a_ex_two find_zz_ex_two ex_env_def)


section \<open>Create and the full table\<close>

lemma my_create_new:
  assumes "find_file_by_name (g_files st) path = None" "alloc_file_slot (g_files st) = Some idx"
  shows "my_create env path mode st =
     sync_return env idx
       (fs_recompute_last_alloc
          (st\<lparr>g_files := (g_files st)[idx := (g_files st ! idx)
                   \<lparr>used := 1,
                    name := strncpy (replicate NAME_MAX_LEN NUL) (skip_slash path) (NAME_MAX_LEN - 1),
                    fsize := 0, perms := mode, mtime := ucast (now env), start := 0\<rparr>],
              g_super := (g_super st)\<lparr>file_count := file_count (g_super st) + 1\<rparr>\<rparr>))"
  using assms by (simp add: my_create_def Let_def)

lemma g_files_my_create_new:
  assumes "find_file_by_name (g_files st) path = None" "alloc_file_slot (g_files st) = Some idx"
  shows "g_files (snd (my_create env path mode st)) =
     (g_files st)[idx := (g_files st ! idx)
                   \<lparr>used := 1,
                    name := strncpy (replicate NAME_MAX_LEN NUL) (skip_slash path) (NAME_MAX_LEN - 1),
                    fsize := 0, perms := mode, mtime := ucast (now env), start := 0\<rparr>]"
  by (simp add: my_create_new [OF assms] snd_sync_return)

lemma fst_my_create_new:
  assumes "wf_table (g_files st)"
    "find_file_by_name (g_files st) path = None" "alloc_file_slot (g_files st) = Some idx"
  shows "fst (my_create env path mode st) = (if meta_xfer env < META_SIZE then Inl FATAL else Inr idx)"
  unfolding my_create_new [OF assms(2,3)]
  by (rule fst_sync_return_wf) (simp add: assms(1) wf_table_update length_strncpy NAME_MAX_LEN_def)

text \<open>
  C6. In a table whose \<open>MAX_FILES\<close> slots are all used, \<open>my_create\<close> and \<open>my_open\<close>
  with \<open>O_CREAT\<close> of a name that is not present return \<open>-ENOSPC\<close> and change
  nothing. After a successful \<open>my_unlink\<close> of a file in the full table, \<open>my_create\<close>
  of a name that is not present succeeds (when the metadata can be written) and
  returns the slot that the unlink freed, which is then used and holds the new
  name.
\<close>

theorem table_exhaustion:
  assumes wf: "wf_table (g_files st)"
    and full: "\<forall>i<MAX_FILES. used (g_files st ! i) \<noteq> 0"
  shows "(find_file_by_name (g_files st) p = None \<longrightarrow>
            my_create env p mode st = (Inl ENOSPC, st) \<and>
            (flags AND O_CREAT \<noteq> 0 \<longrightarrow> my_open env p flags st = (Inl ENOSPC, st))) \<and>
         (\<forall>st1. my_unlink env q st = (Inr (), st1) \<longrightarrow>
            find_file_by_name (g_files st1) p = None \<longrightarrow>
            META_SIZE \<le> meta_xfer env' \<longrightarrow>
            (\<exists>j. find_file_by_name (g_files st) q = Some j \<and>
                 used (g_files st1 ! j) = 0 \<and>
                 fst (my_create env' p mode st1) = Inr j \<and>
                 used (g_files (snd (my_create env' p mode st1)) ! j) = 1 \<and>
                 c_str (name (g_files (snd (my_create env' p mode st1)) ! j)) =
                   take (NAME_MAX_LEN - 1) (c_str (skip_slash p))))"
proof (intro conjI allI impI)
  have none: "alloc_file_slot (g_files st) = None"
    using full by (simp add: alloc_file_slot_None)
  assume f: "find_file_by_name (g_files st) p = None"
  show "my_create env p mode st = (Inl ENOSPC, st)"
    using f none by (simp add: my_create_def)
  assume "flags AND O_CREAT \<noteq> 0"
  then show "my_open env p flags st = (Inl ENOSPC, st)"
    using f none by (simp add: my_open_def)
next
  fix st1
  assume u: "my_unlink env q st = (Inr (), st1)"
    and f1: "find_file_by_name (g_files st1) p = None"
    and io: "META_SIZE \<le> meta_xfer env'"
  from u obtain j where j: "find_file_by_name (g_files st) q = Some j"
    by (cases "find_file_by_name (g_files st) q") (auto simp: my_unlink_def)
  then have jlt: "j < MAX_FILES"
    by (simp add: find_file_by_name_Some)
  have len: "length (g_files st) = MAX_FILES"
    using wf by (simp add: wf_table_def)
  have fs1: "g_files st1 = (g_files st)[j := zero_entry]"
    using g_files_my_unlink [OF j, of env] u by simp
  have wf1: "wf_table (g_files st1)"
    unfolding fs1 using wf by (simp add: wf_table_update)
  have a1: "alloc_file_slot (g_files st1) = Some j"
    using full jlt len by (simp add: alloc_file_slot_Some fs1 nth_list_update)
  let ?st2 = "snd (my_create env' p mode st1)"
  have fs2: "used (g_files ?st2 ! j) = 1 \<and>
      c_str (name (g_files ?st2 ! j)) = take (NAME_MAX_LEN - 1) (c_str (skip_slash p))"
    using jlt len
    by (simp add: g_files_my_create_new [OF f1 a1] fs1 c_str_strncpy NAME_MAX_LEN_def)
  have "fst (my_create env' p mode st1) = Inr j"
    using io by (simp add: fst_my_create_new [OF wf1 f1 a1])
  with j fs2 jlt len
  show "\<exists>j. find_file_by_name (g_files st) q = Some j \<and>
                 used (g_files st1 ! j) = 0 \<and>
                 fst (my_create env' p mode st1) = Inr j \<and>
                 used (g_files (snd (my_create env' p mode st1)) ! j) = 1 \<and>
                 c_str (name (g_files (snd (my_create env' p mode st1)) ! j)) =
                   take (NAME_MAX_LEN - 1) (c_str (skip_slash p))"
    by (intro exI [of _ j]) (simp add: fs1)
qed

text \<open>A witness for C6: the full table \<open>ex_full\<close>, the new name \<open>new\<close>, and the file
  \<open>fA\<close> of slot 0 unlinked.\<close>

theorem table_exhaustion_witness:
  "my_create ex_env ''/new'' 0x1A4 (ex_state ex_full) = (Inl ENOSPC, ex_state ex_full) \<and>
   my_open ex_env ''/new'' O_CREAT (ex_state ex_full) = (Inl ENOSPC, ex_state ex_full) \<and>
   fst (my_create ex_env ''/new'' 0x1A4 (snd (my_unlink ex_env ''/fA'' (ex_state ex_full)))) = Inr 0"
proof -
  let ?st1 = "snd (my_unlink ex_env ''/fA'' (ex_state ex_full))"
  have wf: "wf_table (g_files (ex_state ex_full))"
    by (simp add: wf_ex_full)
  have full: "\<forall>i<MAX_FILES. used (g_files (ex_state ex_full) ! i) \<noteq> 0"
    by (simp add: full_ex_full)
  have "fst (my_unlink ex_env ''/fA'' (ex_state ex_full)) = Inr ()"
    by (simp add: fst_my_unlink [OF wf] find_fA_ex_full ex_env_def)
  then have u: "my_unlink ex_env ''/fA'' (ex_state ex_full) = (Inr (), ?st1)"
    by (simp add: prod_eq_iff)
  have f1: "find_file_by_name (g_files ?st1) ''/new'' = None"
    by (simp add: g_files_my_unlink find_fA_ex_full find_new_ex_full_unlinked)
  have io: "META_SIZE \<le> meta_xfer ex_env"
    by (simp add: ex_env_def)
  have o: "O_CREAT AND O_CREAT \<noteq> 0"
    by (simp add: O_CREAT_def)
  from table_exhaustion [OF wf full, of "''/new''" ex_env "0x1A4" O_CREAT "''/fA''" ex_env]
    u f1 io o find_new_ex_full find_fA_ex_full
  show ?thesis
    by auto
qed

section \<open>Machine arithmetic of the requests\<close>

lemma unat_of_nat_64: "n < 2 ^ 64 \<Longrightarrow> unat (of_nat n :: 64 word) = n"
  by (simp add: unat_of_nat)

lemma unat_of_nat_32: "n < 2 ^ 32 \<Longrightarrow> unat (of_nat n :: 32 word) = n"
  by (simp add: unat_of_nat)

lemma sint_64_cases:
  fixes x :: "64 word"
  shows "sint x = uint x - 2 ^ 64 * of_bool (bit (uint x) 63)"
proof -
  have "take_bit 64 (uint x) = uint x"
    using uint_lt2p [of x] by (simp add: take_bit_int_eq_self)
  then show ?thesis
    using signed_take_bit_eq_take_bit_minus [of 63 "uint x"] by (simp add: sint_uint)
qed

lemma sint_nonneg_64:
  fixes x :: "64 word"
  assumes "0 \<le> sint x"
  shows "sint x = int (unat x)" and "unat x < 2 ^ 63"
proof -
  have "uint x < 2 ^ 64"
    using uint_lt2p [of x] by simp
  then have "\<not> bit (uint x) 63"
    using assms by (auto simp: sint_64_cases)
  then show e: "sint x = int (unat x)"
    by (simp add: sint_64_cases)
  have "sint x < 2 ^ 63"
    using sint_less [of x] by simp
  then show "unat x < 2 ^ 63"
    unfolding e by (simp add: nat_int_comparison)
qed

lemma sint_of_nat_32: "n < 2 ^ 31 \<Longrightarrow> sint (of_nat n :: 32 word) = int n"
  by (simp add: signed_of_nat signed_take_bit_int_eq_self)

lemma unat_ucast_64_32: "unat (x :: 64 word) < 2 ^ 32 \<Longrightarrow> unat (ucast x :: 32 word) = unat x"
  by (simp add: unsigned_ucast_eq take_bit_nat_eq_self)

lemma unat_ucast_32_64: "unat (ucast (x :: 32 word) :: 64 word) = unat x"
proof -
  have "unat x < 2 ^ 64"
    using unsigned_less [of x, where ?'a = nat] by simp
  then show ?thesis
    by (simp add: unsigned_ucast_eq take_bit_nat_eq_self)
qed

lemma fh_idx_of_nat:
  assumes "i < MAX_FILES"
  shows "fh_idx (of_nat i) = int i"
proof -
  have i: "i < 64" using assms by (simp add: MAX_FILES_def)
  then have "unat (of_nat i :: 64 word) = i"
    by (simp add: unat_of_nat_64)
  then have "unat (ucast (of_nat i :: 64 word) :: 32 word) = i"
    using i by (simp add: unat_ucast_64_32)
  then have "(ucast (of_nat i :: 64 word) :: 32 word) = of_nat i"
    by (metis of_nat_unat ucast_id)
  then show ?thesis
    using i by (simp add: fh_idx_def sint_of_nat_32)
qed

lemma bad_fh_of_nat:
  "i < MAX_FILES \<Longrightarrow> bad_fh fs (of_nat i) \<longleftrightarrow> used (fs ! i) = 0"
  by (simp add: bad_fh_def fh_idx_of_nat)

lemma unat_add_64:
  fixes x y :: "64 word"
  shows "unat x + unat y < 2 ^ 64 \<Longrightarrow> unat (x + y) = unat x + unat y"
  using unat_add_lem [of x y] by simp


section \<open>Write\<close>

text \<open>The arithmetic of a request on slot \<open>i\<close> with a non-negative offset and a buffer
  of fewer than \<open>2 ^ 63\<close> bytes.\<close>

lemma request_arith:
  fixes offset :: "64 word"
  assumes off: "0 \<le> sint offset" and len: "n < 2 ^ 63"
  shows "unat (offset + of_nat n) = unat offset + n"
    and "(offset + of_nat n > of_nat FILE_REGION_SIZE) \<longleftrightarrow> FILE_REGION_SIZE < unat offset + n"
proof -
  have o: "unat offset < 2 ^ 63"
    using off by (rule sint_nonneg_64)
  have n: "unat (of_nat n :: 64 word) = n"
    using len by (simp add: unat_of_nat_64)
  show s: "unat (offset + of_nat n) = unat offset + n"
    using o len n unat_add_64 [of offset "of_nat n"] by simp
  have "unat (of_nat FILE_REGION_SIZE :: 64 word) = FILE_REGION_SIZE"
    by (simp add: unat_of_nat_64 FILE_REGION_SIZE_val)
  then show "(offset + of_nat n > of_nat FILE_REGION_SIZE) \<longleftrightarrow> FILE_REGION_SIZE < unat offset + n"
    by (simp add: word_less_nat_alt s)
qed

lemma file_offset_arith:
  fixes offset :: "64 word"
  assumes i: "i < MAX_FILES" and o: "unat offset \<le> FILE_REGION_SIZE"
  shows "unat (ucast ((ucast (region_start i) :: 64 word) + offset) :: 32 word) =
           DATA_OFFSET + i * FILE_REGION_SIZE + unat offset"
proof -
  have b: "DATA_OFFSET + i * FILE_REGION_SIZE + unat offset \<le> 1048528"
    using i o by (rule region_end_bound)
  have r: "unat (ucast (region_start i) :: 64 word) = DATA_OFFSET + i * FILE_REGION_SIZE"
    using i by (simp add: unat_ucast_32_64 unat_region_start)
  have "unat ((ucast (region_start i) :: 64 word) + offset) =
          DATA_OFFSET + i * FILE_REGION_SIZE + unat offset"
    using b r unat_add_64 [of "ucast (region_start i)" offset] by simp
  then show ?thesis
    using b by (simp add: unat_ucast_64_32)
qed

lemma new_end_arith:
  fixes x :: "64 word"
  assumes "unat x \<le> FILE_REGION_SIZE"
  shows "(ucast x :: 32 word) = of_nat (unat x)"
  by simp

lemma my_write_nospace:
  assumes "i < MAX_FILES" "used (g_files st ! i) \<noteq> 0"
    and "0 \<le> sint offset" "length buf < 2 ^ 63"
    and "FILE_REGION_SIZE < unat offset + length buf"
  shows "my_write env (of_nat i) buf offset st = (Inl ENOSPC, st)"
  using assms by (simp add: my_write_def bad_fh_of_nat request_arith Let_def)

lemma my_write_fits:
  assumes i: "i < MAX_FILES" and u: "used (g_files st ! i) \<noteq> 0"
    and off: "0 \<le> sint offset" and len: "length buf < 2 ^ 63"
    and fits: "unat offset + length buf \<le> FILE_REGION_SIZE"
  shows "my_write env (of_nat i) buf offset st =
     (if \<not> seek_ok env then (Inl EIO, st)
      else if data_xfer env < length buf
      then (Inl EIO, st\<lparr>g_fs_file := write_at (g_fs_file st)
               (DATA_OFFSET + i * FILE_REGION_SIZE + unat offset) (take (data_xfer env) buf)\<rparr>)
      else sync_return env (int (length buf))
             (fs_recompute_last_alloc
                (st\<lparr>g_fs_file := write_at (g_fs_file st)
                       (DATA_OFFSET + i * FILE_REGION_SIZE + unat offset) buf,
                    g_files := (g_files st)[i := (g_files st ! i)
                       \<lparr>fsize := max (fsize (g_files st ! i)) (of_nat (unat offset + length buf)),
                        mtime := ucast (now env)\<rparr>]\<rparr>)))"
proof -
  let ?sz = "of_nat (length buf) :: 64 word"
  have sz: "unat ?sz = length buf"
    using len by (simp add: unat_of_nat_64)
  have sum: "unat (offset + ?sz) = unat offset + length buf"
    using off len by (rule request_arith)
  have nosp: "(offset + ?sz > of_nat FILE_REGION_SIZE) = False"
    using fits request_arith(2) [OF off len] by simp
  have fo: "unat (ucast ((ucast (region_start i) :: 64 word) + offset) :: 32 word) =
           DATA_OFFSET + i * FILE_REGION_SIZE + unat offset"
    using i fits by (intro file_offset_arith) simp_all
  have ne: "(ucast (offset + ?sz) :: 32 word) = of_nat (unat offset + length buf)"
    using sum new_end_arith [of "offset + ?sz"] fits by simp
  have ret: "sint (of_nat (length buf) :: 32 word) = int (length buf)"
    using fits by (intro sint_of_nat_32) (simp add: FILE_REGION_SIZE_val)
  have mx: "(if a < b then fe\<lparr>fsize := b\<rparr> else fe)\<lparr>mtime := t\<rparr> =
              fe\<lparr>fsize := max (fsize fe) b, mtime := t\<rparr>"
    if "a = fsize fe" for a b :: "32 word" and fe :: FileEntry and t
    using that by (simp add: max_def not_less)
  have bad: "bad_fh (g_files st) (of_nat i) = False"
    using i u by (simp add: bad_fh_of_nat)
  have idx: "nat (fh_idx (of_nat i)) = i"
    using i by (simp add: fh_idx_of_nat)
  show ?thesis
  proof (cases "seek_ok env")
    case False
    then show ?thesis
      unfolding my_write_def Let_def bad idx nosp by simp
  next
    case True
    show ?thesis
    proof (cases "data_xfer env < length buf")
      case short: True
      then have "min (data_xfer env) (length buf) \<noteq> length buf" "min (data_xfer env) (length buf) = data_xfer env"
        by simp_all
      then show ?thesis
        unfolding my_write_def Let_def bad idx nosp sz fo using True short by simp
    next
      case full: False
      then have "min (data_xfer env) (length buf) = length buf"
        by simp
      then show ?thesis
        unfolding my_write_def Let_def bad idx nosp sz fo ne ret using True full
        by (simp add: mx ret del: of_nat_add)
    qed
  qed
qed


lemma wf_table_nth:
  "wf_table fs \<Longrightarrow> i < MAX_FILES \<Longrightarrow> length (name (fs ! i)) = NAME_MAX_LEN"
  by (simp add: wf_table_def)

lemma unat_max_32: "unat (max a b) = max (unat a) (unat b)" for a b :: "32 word"
  by (simp add: max_def word_le_nat_alt)

text \<open>
  C1. For a valid handle (slot \<open>i\<close> is used), a non-negative offset and a buffer of
  \<open>L\<close> bytes (fewer than \<open>2 ^ 63\<close>, the largest object a C program can hold):
  \<open>my_write\<close> returns \<open>-ENOSPC\<close> exactly when \<open>offset + L\<close> exceeds
  \<open>FILE_REGION_SIZE\<close>, and then the state is unchanged. Otherwise, when the seek, the
  write of the data and the write of the metadata succeed, it returns \<open>L\<close>, the \<open>L\<close>
  bytes stand in the file at \<open>DATA_OFFSET + i * FILE_REGION_SIZE + offset\<close>, the entry's
  size is the maximum of the old size and \<open>offset + L\<close>, its mtime is the current
  time, and no other entry and no other field of the entry changes.
\<close>

theorem my_write_spec:
  assumes wf: "wf_table (g_files st)"
    and i: "i < MAX_FILES" and u: "used (g_files st ! i) \<noteq> 0"
    and off: "0 \<le> sint offset" and len: "length buf < 2 ^ 63"
  shows "(fst (my_write env (of_nat i) buf offset st) = Inl ENOSPC \<longleftrightarrow>
            FILE_REGION_SIZE < unat offset + length buf) \<and>
         (FILE_REGION_SIZE < unat offset + length buf \<longrightarrow>
            my_write env (of_nat i) buf offset st = (Inl ENOSPC, st)) \<and>
         (unat offset + length buf \<le> FILE_REGION_SIZE \<longrightarrow>
          seek_ok env \<longrightarrow> length buf \<le> data_xfer env \<longrightarrow> META_SIZE \<le> meta_xfer env \<longrightarrow>
            fst (my_write env (of_nat i) buf offset st) = Inr (int (length buf)) \<and>
            read_at (g_fs_file (snd (my_write env (of_nat i) buf offset st)))
              (DATA_OFFSET + i * FILE_REGION_SIZE + unat offset) (length buf) = buf \<and>
            g_files (snd (my_write env (of_nat i) buf offset st)) =
              (g_files st)[i := (g_files st ! i)
                 \<lparr>fsize := max (fsize (g_files st ! i)) (of_nat (unat offset + length buf)),
                  mtime := ucast (now env)\<rparr>] \<and>
            unat (fsize (g_files (snd (my_write env (of_nat i) buf offset st)) ! i)) =
              max (unat (fsize (g_files st ! i))) (unat offset + length buf))"
proof (intro conjI impI)
  show "fst (my_write env (of_nat i) buf offset st) = Inl ENOSPC \<longleftrightarrow>
            FILE_REGION_SIZE < unat offset + length buf"
  proof (cases "FILE_REGION_SIZE < unat offset + length buf")
    case True
    then show ?thesis
      by (simp add: my_write_nospace [OF i u off len])
  next
    case False
    then have fits: "unat offset + length buf \<le> FILE_REGION_SIZE"
      by simp
    show ?thesis
      using False by (simp add: my_write_fits [OF i u off len fits] fst_sync_return)
  qed
next
  assume "FILE_REGION_SIZE < unat offset + length buf"
  then show "my_write env (of_nat i) buf offset st = (Inl ENOSPC, st)"
    by (rule my_write_nospace [OF i u off len])
next
  assume fits: "unat offset + length buf \<le> FILE_REGION_SIZE"
    and io: "seek_ok env" "length buf \<le> data_xfer env" "META_SIZE \<le> meta_xfer env"
  let ?pos = "DATA_OFFSET + i * FILE_REGION_SIZE + unat offset"
  let ?fe = "(g_files st ! i)
                 \<lparr>fsize := max (fsize (g_files st ! i)) (of_nat (unat offset + length buf)),
                  mtime := ucast (now env)\<rparr>"
  let ?st2 = "fs_recompute_last_alloc
                (st\<lparr>g_fs_file := write_at (g_fs_file st) ?pos buf,
                    g_files := (g_files st)[i := ?fe]\<rparr>)"
  have w: "my_write env (of_nat i) buf offset st = sync_return env (int (length buf)) ?st2"
    using io by (simp add: my_write_fits [OF i u off len fits])
  have wf2: "wf_table (g_files ?st2)"
    using wf i by (simp add: wf_table_update wf_table_nth)
  have len2: "length (meta_bytes ?st2) = META_SIZE"
    by (rule length_meta_bytes [OF wf2])
  show "fst (my_write env (of_nat i) buf offset st) = Inr (int (length buf))"
    unfolding w fst_sync_return_wf [OF wf2] using io by simp
  have "META_SIZE \<le> ?pos"
    by (simp add: DATA_OFFSET_def)
  then show "read_at (g_fs_file (snd (my_write env (of_nat i) buf offset st))) ?pos (length buf) = buf"
    unfolding w snd_sync_return using io len2
    by (simp add: read_at_write_at_0 read_at_write_at_same del: of_nat_add)
  show g: "g_files (snd (my_write env (of_nat i) buf offset st)) = (g_files st)[i := ?fe]"
    unfolding w snd_sync_return by (simp del: of_nat_add)
  have "unat (of_nat (unat offset + length buf) :: 32 word) = unat offset + length buf"
    using fits by (intro unat_of_nat_32) (simp add: FILE_REGION_SIZE_val)
  then show "unat (fsize (g_files (snd (my_write env (of_nat i) buf offset st)) ! i)) =
              max (unat (fsize (g_files st ! i))) (unat offset + length buf)"
    unfolding g using i wf by (simp add: wf_table_def unat_max_32 del: of_nat_add)
qed


lemma ex_two_0: "ex_two ! 0 = ex_entry ''a'' 10"
  by (simp add: ex_two_nth MAX_FILES_def)

lemma length_ex_two: "length ex_two = MAX_FILES"
  by (simp add: ex_two_def)

text \<open>A witness for C1: the file \<open>a\<close> (ten bytes, slot 0) of \<open>ex_two\<close>; five bytes at
  16330 do not fit, five bytes at 8 extend the file to 13 bytes, two bytes at 0 leave
  its size at 10.\<close>

theorem my_write_spec_witness:
  "my_write ex_env 0 ''hello'' 16330 (ex_state ex_two) = (Inl ENOSPC, ex_state ex_two) \<and>
   fst (my_write ex_env 0 ''hello'' 8 (ex_state ex_two)) = Inr 5 \<and>
   unat (fsize (g_files (snd (my_write ex_env 0 ''hello'' 8 (ex_state ex_two))) ! 0)) = 13 \<and>
   read_at (g_fs_file (snd (my_write ex_env 0 ''hello'' 8 (ex_state ex_two)))) (DATA_OFFSET + 8)
     (length ''hello'') = ''hello'' \<and>
   unat (fsize (g_files (snd (my_write ex_env 0 ''hi'' 0 (ex_state ex_two))) ! 0)) = 10"
  using my_write_spec [of "ex_state ex_two" 0 16330 "''hello''" ex_env]
    my_write_spec [of "ex_state ex_two" 0 8 "''hello''" ex_env]
    my_write_spec [of "ex_state ex_two" 0 0 "''hi''" ex_env]
  by (simp add: wf_ex_two ex_two_0 length_ex_two ex_env_def MAX_FILES_def FILE_REGION_SIZE_val
      FS_SIZE_def)

section \<open>Read\<close>

lemma my_read_normal:
  assumes i: "i < MAX_FILES" and u: "used (g_files st ! i) \<noteq> 0"
    and off: "0 \<le> sint offset" and len: "unat sz < 2 ^ 63"
    and inv: "unat (fsize (g_files st ! i)) \<le> FILE_REGION_SIZE"
  shows "my_read env (of_nat i) sz offset st =
     (if unat (fsize (g_files st ! i)) \<le> unat offset then Inr (0, [])
      else if \<not> seek_ok env then Inl EIO
      else Inr (int (length (take (data_xfer env)
                   (read_at (g_fs_file st) (DATA_OFFSET + i * FILE_REGION_SIZE + unat offset)
                      (min (unat sz) (unat (fsize (g_files st ! i)) - unat offset))))),
                take (data_xfer env)
                   (read_at (g_fs_file st) (DATA_OFFSET + i * FILE_REGION_SIZE + unat offset)
                      (min (unat sz) (unat (fsize (g_files st ! i)) - unat offset)))))"
proof -
  let ?fe = "g_files st ! i"
  let ?S = "unat (fsize ?fe)"
  have bad: "bad_fh (g_files st) (of_nat i) = False"
    using i u by (simp add: bad_fh_of_nat)
  have idx: "nat (fh_idx (of_nat i)) = i"
    using i by (simp add: fh_idx_of_nat)
  have so: "sint offset = int (unat offset)" and o63: "unat offset < 2 ^ 63"
    using off by (rule sint_nonneg_64)+
  have eof: "(uint (fsize ?fe) \<le> sint offset) = (?S \<le> unat offset)"
    by (simp only: so uint_nat of_nat_le_iff)
  show ?thesis
  proof (cases "?S \<le> unat offset")
    case True
    then show ?thesis
      unfolding my_read_def Let_def bad idx eof by simp
  next
    case False
    then have lt: "unat offset < ?S" by simp
    have S64: "unat (ucast (fsize ?fe) :: 64 word) = ?S"
      by (rule unat_ucast_32_64)
    have sum: "unat (offset + sz) = unat offset + unat sz"
      using o63 len unat_add_64 [of offset sz] by simp
    have clampc: "(offset + sz > ucast (fsize ?fe)) = (?S < unat offset + unat sz)"
      by (simp add: word_less_nat_alt S64 sum)
    have "offset \<le> ucast (fsize ?fe)"
      using lt by (simp add: word_le_nat_alt S64)
    then have sub: "unat (ucast (fsize ?fe) - offset) = ?S - unat offset"
      by (simp add: unat_sub S64)
    have sz': "unat (if ?S < unat offset + unat sz then ucast (fsize ?fe) - offset else sz) =
        min (unat sz) (?S - unat offset)"
      using lt by (auto simp: sub min_def)
    have fo: "unat (ucast ((ucast (region_start i) :: 64 word) + offset) :: 32 word) =
           DATA_OFFSET + i * FILE_REGION_SIZE + unat offset"
      using i lt inv by (intro file_offset_arith) simp_all
    have ret: "sint (of_nat (length (take k (read_at f p (min (unat sz) (?S - unat offset))))) :: 32 word) =
        int (length (take k (read_at f p (min (unat sz) (?S - unat offset)))))" for k f p
    proof (rule sint_of_nat_32)
      have "length (take k (read_at f p (min (unat sz) (?S - unat offset)))) \<le> ?S"
        by (simp add: read_at_def)
      then show "length (take k (read_at f p (min (unat sz) (?S - unat offset)))) < 2 ^ 31"
        using inv by (simp add: FILE_REGION_SIZE_val)
    qed
    show ?thesis
      unfolding my_read_def Let_def bad idx eof clampc sz' fo ret using False by simp
  qed
qed

text \<open>
  C2. For a valid handle on a file of size \<open>S\<close> (within the slot capacity), a
  non-negative offset and a requested length below \<open>2 ^ 63\<close>: when \<open>offset \<ge> S\<close>,
  \<open>my_read\<close> returns 0 and no bytes, whatever the environment does; when
  \<open>offset < S < offset + length\<close>, the seek succeeds and the backing file (of its fixed
  size) delivers the clamped count, it returns \<open>S - offset\<close> and exactly the
  \<open>S - offset\<close> bytes that stand at \<open>DATA_OFFSET + i * FILE_REGION_SIZE + offset\<close>.
\<close>

theorem my_read_spec:
  assumes i: "i < MAX_FILES" and u: "used (g_files st ! i) \<noteq> 0"
    and off: "0 \<le> sint offset" and len: "unat sz < 2 ^ 63"
    and inv: "unat (fsize (g_files st ! i)) \<le> FILE_REGION_SIZE"
  shows "(unat (fsize (g_files st ! i)) \<le> unat offset \<longrightarrow>
            my_read env (of_nat i) sz offset st = Inr (0, [])) \<and>
         (unat offset < unat (fsize (g_files st ! i)) \<longrightarrow>
          unat (fsize (g_files st ! i)) < unat offset + unat sz \<longrightarrow>
          seek_ok env \<longrightarrow> unat (fsize (g_files st ! i)) - unat offset \<le> data_xfer env \<longrightarrow>
          length (g_fs_file st) = FS_SIZE \<longrightarrow>
            my_read env (of_nat i) sz offset st =
              Inr (int (unat (fsize (g_files st ! i)) - unat offset),
                   read_at (g_fs_file st) (DATA_OFFSET + i * FILE_REGION_SIZE + unat offset)
                     (unat (fsize (g_files st ! i)) - unat offset)) \<and>
            length (read_at (g_fs_file st) (DATA_OFFSET + i * FILE_REGION_SIZE + unat offset)
                     (unat (fsize (g_files st ! i)) - unat offset)) =
              unat (fsize (g_files st ! i)) - unat offset)"
proof (intro conjI impI)
  assume "unat (fsize (g_files st ! i)) \<le> unat offset"
  then show "my_read env (of_nat i) sz offset st = Inr (0, [])"
    by (simp add: my_read_normal [OF i u off len inv])
next
  let ?S = "unat (fsize (g_files st ! i))"
  let ?pos = "DATA_OFFSET + i * FILE_REGION_SIZE + unat offset"
  assume lt: "unat offset < ?S" and over: "?S < unat offset + unat sz"
    and io: "seek_ok env" "?S - unat offset \<le> data_xfer env"
    and fsz: "length (g_fs_file st) = FS_SIZE"
  have "DATA_OFFSET + i * FILE_REGION_SIZE + ?S \<le> 1048528"
    using i inv by (rule region_end_bound)
  then have "?pos + (?S - unat offset) \<le> length (g_fs_file st)"
    using lt by (simp add: fsz FS_SIZE_def)
  then show l: "length (read_at (g_fs_file st) ?pos (?S - unat offset)) = ?S - unat offset"
    by (simp add: read_at_def)
  have m: "min (unat sz) (?S - unat offset) = ?S - unat offset"
    using over by simp
  show "my_read env (of_nat i) sz offset st =
      Inr (int (?S - unat offset), read_at (g_fs_file st) ?pos (?S - unat offset))"
    unfolding my_read_normal [OF i u off len inv] m using lt io l by simp
qed


text \<open>A witness for C2: the ten-byte file \<open>a\<close> of \<open>ex_two\<close>, read at its end and from
  offset 3 with a request of 100 bytes.\<close>

theorem my_read_spec_witness:
  "my_read ex_env 0 100 10 (ex_state ex_two) = Inr (0, []) \<and>
   my_read ex_env 0 100 3 (ex_state ex_two) = Inr (7, replicate 7 NUL)"
  using my_read_spec [of 0 "ex_state ex_two" 10 100 ex_env]
    my_read_spec [of 0 "ex_state ex_two" 3 100 ex_env]
  by (simp add: ex_two_0 ex_env_def MAX_FILES_def FILE_REGION_SIZE_val FS_SIZE_def
      DATA_OFFSET_val META_SIZE_val wf_ex_two length_g_fs_file_ex_state read_at_ex_state)

text \<open>
  C7 does not hold of the code. The claim is that a read which the storage cuts
  short is reported as an I/O failure. \<open>my_read\<close> returns \<open>(int)r\<close>, the count that
  \<open>fread\<close> delivered, without comparing it with the requested length (as \<open>my_write\<close>
  does for \<open>fwrite\<close>): here ten bytes are requested from the ten-byte file \<open>a\<close>, the
  storage delivers four, and the call returns 4.
\<close>

theorem my_read_short_read_returns_count:
  "my_read (ex_env\<lparr>data_xfer := 4\<rparr>) 0 10 0 (ex_state ex_two) = Inr (4, replicate 4 NUL)"
  using my_read_normal [of 0 "ex_state ex_two" 0 10 "ex_env\<lparr>data_xfer := 4\<rparr>"]
  by (simp add: ex_two_0 ex_env_def MAX_FILES_def FILE_REGION_SIZE_val FS_SIZE_def
      DATA_OFFSET_val META_SIZE_val wf_ex_two read_at_ex_state)

section \<open>Names of NAME_MAX_LEN characters and more\<close>

lemma length_c_str_le: "length (c_str s) \<le> length s"
  by (simp add: c_str_def length_takeWhile_le)

lemma strcmp_0_iff: "strcmp a b = 0 \<longleftrightarrow> c_str a = c_str b"
proof -
  have "length (c_str a) \<le> max (length a) (length b)" "length (c_str b) \<le> max (length a) (length b)"
    using length_c_str_le [of a] length_c_str_le [of b] by simp_all
  then show ?thesis
    by (simp add: strcmp_def strncmp_0_iff del: strncmp.simps)
qed

lemma c_str_root: "c_str p = ''/'' \<Longrightarrow> c_str (skip_slash p) = []"
  by (cases p) (auto simp: c_str_simps skip_slash_def char_at0_def split: if_splits)

lemma long_not_root:
  assumes "NAME_MAX_LEN \<le> length (c_str (skip_slash p))"
  shows "strcmp p ''/'' \<noteq> 0"
proof
  assume "strcmp p ''/'' = 0"
  then have "c_str p = ''/''"
    by (simp add: strcmp_0_iff c_str_simps)
  then have "c_str (skip_slash p) = []"
    by (rule c_str_root)
  with assms show False
    by (simp add: NAME_MAX_LEN_def)
qed

lemma long_no_match:
  assumes "NAME_MAX_LEN \<le> length (c_str (skip_slash p))"
    and "length (c_str (name (fs ! i))) < NAME_MAX_LEN"
  shows "\<not> name_match fs p i"
proof
  assume "name_match fs p i"
  then have "take NAME_MAX_LEN (c_str (name (fs ! i))) = take NAME_MAX_LEN (c_str (skip_slash p))"
    by (simp add: name_match_def)
  then have "length (take NAME_MAX_LEN (c_str (name (fs ! i)))) =
      length (take NAME_MAX_LEN (c_str (skip_slash p)))"
    by simp
  with assms show False
    by simp
qed

lemma long_not_found:
  assumes "names_terminated fs" "NAME_MAX_LEN \<le> length (c_str (skip_slash p))"
  shows "find_file_by_name fs p = None"
  unfolding find_file_by_name_None
proof (intro allI impI)
  fix i assume i: "i < MAX_FILES"
  show "\<not> name_match fs p i"
  proof (cases "used (fs ! i) = 0")
    case True
    then show ?thesis by (simp add: name_match_def)
  next
    case False
    with assms(1) i have "length (c_str (name (fs ! i))) < NAME_MAX_LEN"
      by (simp add: names_terminated_def)
    with assms(2) show ?thesis
      by (rule long_no_match)
  qed
qed

lemma names_terminated_update:
  assumes "names_terminated fs" "length fs = MAX_FILES" "length (c_str (name e)) < NAME_MAX_LEN"
  shows "names_terminated (fs[i := e])"
proof (cases "i < length fs")
  case True
  then show ?thesis
    using assms by (auto simp: names_terminated_def nth_list_update)
next
  case False
  then have "fs[i := e] = fs"
    by (intro list_update_beyond) simp
  then show ?thesis
    using assms(1) by simp
qed

lemma my_getattr_not_found:
  "strcmp path ''/'' \<noteq> 0 \<Longrightarrow> find_file_by_name (g_files st) path = None \<Longrightarrow>
   my_getattr st path = Inl ENOENT"
  by (simp add: my_getattr_def)

lemma file_count_my_create_new:
  assumes "find_file_by_name (g_files st) path = None" "alloc_file_slot (g_files st) = Some idx"
  shows "file_count (g_super (snd (my_create env path mode st))) = file_count (g_super st) + 1"
  by (simp add: my_create_new [OF assms] snd_sync_return)

lemma wf_ex_fresh: "wf_table ex_fresh"
  by (simp add: wf_table_def ex_fresh_def)

lemma ex_fresh_nth: "i < MAX_FILES \<Longrightarrow> ex_fresh ! i = zero_entry"
  by (simp add: ex_fresh_def)

lemma length_ex_fresh: "length ex_fresh = MAX_FILES"
  by (simp add: ex_fresh_def)

lemma names_terminated_ex_fresh: "names_terminated ex_fresh"
  by (simp add: names_terminated_def ex_fresh_nth)

lemma live_ex_fresh: "live ex_fresh n = {}"
  if "n \<le> MAX_FILES"
  using that by (auto simp: live_def ex_fresh_nth)

lemma ex_fresh_Cons: "ex_fresh = zero_entry # zero_entry # replicate 62 zero_entry"
proof -
  have m: "MAX_FILES = Suc (Suc 62)"
    by (simp add: MAX_FILES_def)
  show ?thesis
    unfolding ex_fresh_def m by (simp only: replicate_Suc)
qed

lemma fs_format_ex: "fs_format ex_env True = (Inr (), ex_state ex_fresh)"
proof -
  let ?st = "\<lparr>g_super = \<lparr>magic = FS_MAGIC, version = FS_VERSION,
                            last_alloc = of_nat DATA_OFFSET, file_count = 0\<rparr>,
                g_files = replicate MAX_FILES zero_entry, g_fs_file = replicate FS_SIZE NUL\<rparr>"
  have c: "of_nat (length (filter (\<lambda>e. used e \<noteq> 0) ex_fresh)) = (0 :: 32 word)"
    by (simp add: ex_fresh_def)
  have "foldl (last_alloc_step ex_fresh) (of_nat DATA_OFFSET) [0..<MAX_FILES] = of_nat DATA_OFFSET"
    by (simp add: foldl_last_alloc_step live_ex_fresh)
  then have r: "fs_recompute_last_alloc
          \<lparr>g_super = \<lparr>magic = FS_MAGIC, version = FS_VERSION, last_alloc = 0, file_count = 0\<rparr>,
           g_files = ex_fresh, g_fs_file = replicate FS_SIZE NUL\<rparr> = ?st"
    by (simp add: fs_recompute_last_alloc_def) (simp add: ex_fresh_def)
  have e: "ex_state ex_fresh = snd (sync_return ex_env () ?st)"
    unfolding ex_state_def c r ..
  have "wf_table (g_files ?st)"
    using wf_ex_fresh by (simp add: ex_fresh_def)
  then have "fst (sync_return ex_env () ?st) = Inr ()"
    by (simp add: fst_sync_return_wf ex_env_def)
  then show ?thesis
    unfolding e fs_format_def Let_def by (simp add: prod_eq_iff)
qed

lemma skip_slash_ex_long: "skip_slash ex_long = replicate 32 (CHR ''a'')"
  by (simp add: ex_long_def skip_slash_def char_at0_def)

lemma c_str_replicate: "c \<noteq> NUL \<Longrightarrow> c_str (replicate n c) = replicate n c"
  by (simp add: c_str_def takeWhile_replicate)

lemma long_ex_long: "NAME_MAX_LEN \<le> length (c_str (skip_slash ex_long))"
  by (simp add: skip_slash_ex_long c_str_replicate NAME_MAX_LEN_def)

lemma alloc_ex_fresh: "alloc_file_slot ex_fresh = Some 0"
  by (simp add: alloc_file_slot_Some ex_fresh_nth MAX_FILES_def)

text \<open>
  What \<open>my_create\<close> and the lookup do with a path whose name, as \<open>skip_slash\<close> leaves
  it, has \<open>NAME_MAX_LEN\<close> characters or more.
\<close>

lemma my_create_long:
  assumes wf: "wf_table (g_files st)"
    and nt: "names_terminated (g_files st)"
    and long: "NAME_MAX_LEN \<le> length (c_str (skip_slash path))"
    and free: "alloc_file_slot (g_files st) = Some h"
    and io: "META_SIZE \<le> meta_xfer env"
  shows "fst (my_create env path mode st) = Inr h \<and>
         used (g_files (snd (my_create env path mode st)) ! h) = 1 \<and>
         name (g_files (snd (my_create env path mode st)) ! h) =
           take (NAME_MAX_LEN - 1) (c_str (skip_slash path)) @ [NUL] \<and>
         \<not> name_match (g_files (snd (my_create env path mode st))) path h \<and>
         find_file_by_name (g_files (snd (my_create env path mode st))) path = None \<and>
         my_getattr (snd (my_create env path mode st)) path = Inl ENOENT \<and>
         (\<forall>h2. alloc_file_slot (g_files (snd (my_create env path mode st))) = Some h2 \<longrightarrow>
            META_SIZE \<le> meta_xfer env2 \<longrightarrow>
              fst (my_create env2 path mode2 (snd (my_create env path mode st))) = Inr h2 \<and>
              h2 \<noteq> h \<and>
              used (g_files (snd (my_create env2 path mode2 (snd (my_create env path mode st)))) ! h2) = 1 \<and>
              file_count (g_super (snd (my_create env2 path mode2 (snd (my_create env path mode st))))) =
                file_count (g_super st) + 2)"
proof -
  let ?st1 = "snd (my_create env path mode st)"
  let ?nm = "strncpy (replicate NAME_MAX_LEN NUL) (skip_slash path) (NAME_MAX_LEN - 1)"
  let ?e = "(g_files st ! h)\<lparr>used := 1, name := ?nm, fsize := 0, perms := mode,
              mtime := ucast (now env), start := 0\<rparr>"
  have len: "length (g_files st) = MAX_FILES"
    using wf by (simp add: wf_table_def)
  have h: "h < MAX_FILES"
    using free by (simp add: alloc_file_slot_Some)
  have nf: "find_file_by_name (g_files st) path = None"
    using nt long by (rule long_not_found)
  have fs1: "g_files ?st1 = (g_files st)[h := ?e]"
    by (rule g_files_my_create_new [OF nf free])
  have e1: "g_files ?st1 ! h = ?e"
    using h len by (simp add: fs1)
  have cs: "c_str ?nm = take (NAME_MAX_LEN - 1) (c_str (skip_slash path))"
    by (rule c_str_strncpy) (simp add: NAME_MAX_LEN_def)
  have wf1: "wf_table (g_files ?st1)"
    unfolding fs1 using wf by (simp add: wf_table_update length_strncpy NAME_MAX_LEN_def)
  have lcs: "length (c_str ?nm) < NAME_MAX_LEN"
    unfolding cs by (simp add: NAME_MAX_LEN_def)
  have ne: "name ?e = ?nm"
    by simp
  have nt1: "names_terminated (g_files ?st1)"
    unfolding fs1 using nt len
  proof (rule names_terminated_update)
    show "length (c_str (name ?e)) < NAME_MAX_LEN"
      unfolding ne by (rule lcs)
  qed
  have nf1: "find_file_by_name (g_files ?st1) path = None"
    using nt1 long by (rule long_not_found)
  have root: "strcmp path ''/'' \<noteq> 0"
    using long by (rule long_not_root)
  have r1: "fst (my_create env path mode st) = Inr h"
    using io by (simp add: fst_my_create_new [OF wf nf free])
  have u1: "used (g_files ?st1 ! h) = 1"
    by (simp add: e1)
  have n1: "name (g_files ?st1 ! h) = take (NAME_MAX_LEN - 1) (c_str (skip_slash path)) @ [NUL]"
    using long by (simp add: e1 strncpy_def Let_def NAME_MAX_LEN_def)
  have m1: "\<not> name_match (g_files ?st1) path h"
    using long
  proof (rule long_no_match)
    show "length (c_str (name (g_files ?st1 ! h))) < NAME_MAX_LEN"
      unfolding e1 ne by (rule lcs)
  qed
  have g1: "my_getattr ?st1 path = Inl ENOENT"
    using root nf1 by (rule my_getattr_not_found)
  have second: "fst (my_create env2 path mode2 ?st1) = Inr h2 \<and> h2 \<noteq> h \<and>
      used (g_files (snd (my_create env2 path mode2 ?st1)) ! h2) = 1 \<and>
      file_count (g_super (snd (my_create env2 path mode2 ?st1))) = file_count (g_super st) + 2"
    if a2: "alloc_file_slot (g_files ?st1) = Some h2" and io2: "META_SIZE \<le> meta_xfer env2" for h2
  proof -
    have h2: "h2 < MAX_FILES" "used (g_files ?st1 ! h2) = 0"
      using a2 by (simp_all add: alloc_file_slot_Some)
    then have ne: "h2 \<noteq> h"
      using u1 by auto
    have len1: "length (g_files ?st1) = MAX_FILES"
      using wf1 by (simp add: wf_table_def)
    have "fst (my_create env2 path mode2 ?st1) = Inr h2"
      using io2 by (simp add: fst_my_create_new [OF wf1 nf1 a2])
    moreover have "used (g_files (snd (my_create env2 path mode2 ?st1)) ! h2) = 1"
      using h2 len1 by (simp add: g_files_my_create_new [OF nf1 a2])
    moreover have "file_count (g_super (snd (my_create env2 path mode2 ?st1))) =
        file_count (g_super st) + 2"
      by (simp add: file_count_my_create_new [OF nf1 a2] file_count_my_create_new [OF nf free])
    ultimately show ?thesis
      using ne by simp
  qed
  from r1 u1 n1 m1 nf1 g1 second show ?thesis
    by blast
qed

text \<open>
  C9. Let the path be the separator \<open>/\<close> followed by a name \<open>nm\<close> of \<open>NAME_MAX_LEN\<close>
  characters or more, in a table whose used entries hold terminated names. When
  \<open>my_create\<close> finds a free slot \<open>h\<close> and the metadata can be written, it returns \<open>h\<close>
  and stores in the entry the first 31 characters of \<open>nm\<close>, followed by \<open>NUL\<close>. The
  test of \<open>find_file_by_name\<close> fails on that entry, the lookup of the path finds
  nothing, \<open>my_getattr\<close> returns \<open>-ENOENT\<close>, and a second \<open>my_create\<close> of the same
  path, when it finds a free slot \<open>h2\<close>, returns \<open>h2\<close>, another slot, and counts a
  second file.
\<close>

theorem long_name_never_found:
  assumes wf: "wf_table (g_files st)"
    and nt: "names_terminated (g_files st)"
    and long: "NAME_MAX_LEN \<le> length (c_str nm)"
    and free: "alloc_file_slot (g_files st) = Some h"
    and io: "META_SIZE \<le> meta_xfer env"
  shows "fst (my_create env (CHR ''/'' # nm) mode st) = Inr h \<and>
         used (g_files (snd (my_create env (CHR ''/'' # nm) mode st)) ! h) = 1 \<and>
         name (g_files (snd (my_create env (CHR ''/'' # nm) mode st)) ! h) =
           take 31 (c_str nm) @ [NUL] \<and>
         \<not> name_match (g_files (snd (my_create env (CHR ''/'' # nm) mode st))) (CHR ''/'' # nm) h \<and>
         find_file_by_name (g_files (snd (my_create env (CHR ''/'' # nm) mode st))) (CHR ''/'' # nm) = None \<and>
         my_getattr (snd (my_create env (CHR ''/'' # nm) mode st)) (CHR ''/'' # nm) = Inl ENOENT \<and>
         (\<forall>h2. alloc_file_slot (g_files (snd (my_create env (CHR ''/'' # nm) mode st))) = Some h2 \<longrightarrow>
            META_SIZE \<le> meta_xfer env2 \<longrightarrow>
              fst (my_create env2 (CHR ''/'' # nm) mode2 (snd (my_create env (CHR ''/'' # nm) mode st))) = Inr h2 \<and>
              h2 \<noteq> h \<and>
              used (g_files (snd (my_create env2 (CHR ''/'' # nm) mode2
                     (snd (my_create env (CHR ''/'' # nm) mode st)))) ! h2) = 1 \<and>
              file_count (g_super (snd (my_create env2 (CHR ''/'' # nm) mode2
                     (snd (my_create env (CHR ''/'' # nm) mode st))))) =
                file_count (g_super st) + 2)"
proof -
  have sk: "skip_slash (CHR ''/'' # nm) = nm"
    by (simp add: skip_slash_def char_at0_def)
  have long': "NAME_MAX_LEN \<le> length (c_str (skip_slash (CHR ''/'' # nm)))"
    unfolding sk by (rule long)
  have n: "NAME_MAX_LEN - 1 = 31"
    by (simp add: NAME_MAX_LEN_def)
  show ?thesis
    using my_create_long [OF wf nt long' free io, where mode = mode and ?env2.0 = env2
        and ?mode2.0 = mode2]
    unfolding sk n .
qed

text \<open>
  A witness for C9: the path \<open>ex_long\<close>, the separator and 32 times \<open>a\<close>, created
  twice after \<open>fs_format\<close>. The entry of slot 0 holds 31 times \<open>a\<close> and \<open>NUL\<close>, without
  the separator.
\<close>

theorem long_name_never_found_witness:
  "fst (my_create ex_env ex_long 0x1A4 (ex_state ex_fresh)) = Inr 0 \<and>
   name (g_files (snd (my_create ex_env ex_long 0x1A4 (ex_state ex_fresh))) ! 0) =
     replicate 31 (CHR ''a'') @ [NUL] \<and>
   find_file_by_name (g_files (snd (my_create ex_env ex_long 0x1A4 (ex_state ex_fresh)))) ex_long = None \<and>
   my_getattr (snd (my_create ex_env ex_long 0x1A4 (ex_state ex_fresh))) ex_long = Inl ENOENT \<and>
   fst (my_create ex_env ex_long 0x1A4 (snd (my_create ex_env ex_long 0x1A4 (ex_state ex_fresh)))) = Inr 1"
proof -
  let ?st0 = "ex_state ex_fresh"
  let ?st1 = "snd (my_create ex_env ex_long 0x1A4 ?st0)"
  have wf: "wf_table (g_files ?st0)" and nt: "names_terminated (g_files ?st0)"
    and free: "alloc_file_slot (g_files ?st0) = Some 0"
    by (simp_all add: wf_ex_fresh names_terminated_ex_fresh alloc_ex_fresh)
  have io: "META_SIZE \<le> meta_xfer ex_env"
    by (simp add: ex_env_def)
  have long: "NAME_MAX_LEN \<le> length (c_str (replicate 32 (CHR ''a'')))"
    by (simp add: c_str_replicate NAME_MAX_LEN_def)
  note t = long_name_never_found [OF wf nt long free io, of "0x1A4" ex_env "0x1A4",
      folded ex_long_def]
  have nf: "find_file_by_name (g_files ?st0) ex_long = None"
    using nt long_ex_long by (rule long_not_found)
  have "used (g_files ?st1 ! 1) = 0"
    unfolding g_files_my_create_new [OF nf free] by (simp add: ex_fresh_Cons)
  moreover have "used (g_files ?st1 ! 0) = 1"
    using t by simp
  ultimately have a: "alloc_file_slot (g_files ?st1) = Some 1"
    by (simp add: alloc_file_slot_Some MAX_FILES_def)
  have "name (g_files ?st1 ! 0) = take 31 (c_str (replicate 32 (CHR ''a''))) @ [NUL]"
    using t by simp
  then have b: "name (g_files ?st1 ! 0) = replicate 31 (CHR ''a'') @ [NUL]"
    by (simp add: c_str_replicate)
  from t a io b show ?thesis
    by simp
qed

section \<open>Create is idempotent for names that fit the buffer\<close>

text \<open>
  For a name shorter than \<open>NAME_MAX_LEN\<close>, a \<open>my_create\<close> that returned a handle is
  repeated by a second \<open>my_create\<close> of the same path, in any environment and with any
  mode: the same handle, the same state.
\<close>

lemma name_match_cong: "fs ! i = fs' ! i \<Longrightarrow> name_match fs p i = name_match fs' p i"
  by (simp add: name_match_def)

lemma my_create_twice_short:
  assumes wf: "wf_table (g_files st)"
    and short: "length (c_str (skip_slash path)) < NAME_MAX_LEN"
    and r: "my_create env path mode st = (Inr h, st1)"
  shows "my_create env' path mode' st1 = (Inr h, st1)"
proof (cases "find_file_by_name (g_files st) path")
  case (Some idx)
  then have "my_create env path mode st = (Inr idx, st)"
    by (simp add: my_create_def)
  with r have "h = idx" "st1 = st"
    by simp_all
  with Some show ?thesis
    by (simp add: my_create_def)
next
  case None
  have "alloc_file_slot (g_files st) \<noteq> None"
  proof
    assume "alloc_file_slot (g_files st) = None"
    with None have "my_create env path mode st = (Inl ENOSPC, st)"
      by (simp add: my_create_def)
    with r show False
      by simp
  qed
  then obtain idx where a: "alloc_file_slot (g_files st) = Some idx"
    by blast
  have "fst (my_create env path mode st) = (if meta_xfer env < META_SIZE then Inl FATAL else Inr idx)"
    by (rule fst_my_create_new [OF wf None a])
  with r have h: "h = idx"
    by (cases "meta_xfer env < META_SIZE") simp_all
  let ?nm = "strncpy (replicate NAME_MAX_LEN NUL) (skip_slash path) (NAME_MAX_LEN - 1)"
  let ?e = "(g_files st ! idx)\<lparr>used := 1, name := ?nm, fsize := 0, perms := mode,
              mtime := ucast (now env), start := 0\<rparr>"
  have fs1: "g_files st1 = (g_files st)[idx := ?e]"
    using g_files_my_create_new [OF None a, of env mode] r by simp
  have idx: "idx < MAX_FILES"
    using a by (simp add: alloc_file_slot_Some)
  have len: "length (g_files st) = MAX_FILES"
    using wf by (simp add: wf_table_def)
  have cs: "c_str ?nm = take (NAME_MAX_LEN - 1) (c_str (skip_slash path))"
    by (rule c_str_strncpy) (simp add: NAME_MAX_LEN_def)
  have ne: "name ?e = ?nm" "used ?e = 1"
    by simp_all
  have e1: "g_files st1 ! idx = ?e"
    unfolding fs1 using idx len by simp
  have "take NAME_MAX_LEN (c_str (name (g_files st1 ! idx))) = take NAME_MAX_LEN (c_str (skip_slash path))"
    unfolding e1 ne cs using short by simp
  moreover have "used (g_files st1 ! idx) \<noteq> 0"
    unfolding e1 ne by simp
  ultimately have m: "name_match (g_files st1) path idx"
    by (simp add: name_match_def)
  have "\<not> name_match (g_files st1) path j" if "j < idx" for j
  proof -
    have "g_files st ! j = g_files st1 ! j"
      unfolding fs1 using that by simp
    moreover have "\<not> name_match (g_files st) path j"
      using None that idx by (simp add: find_file_by_name_None)
    ultimately show ?thesis
      using name_match_cong [of "g_files st" j "g_files st1" path] by simp
  qed
  with m idx have "find_file_by_name (g_files st1) path = Some idx"
    by (simp add: find_file_by_name_Some)
  then show ?thesis
    by (simp add: my_create_def h)
qed


section \<open>The state invariant\<close>

text \<open>
  Every callback and \<open>fs_format\<close> preserve \<open>fs_inv\<close>, provided the names that
  \<open>my_create\<close> and \<open>my_open\<close> are given are shorter than \<open>NAME_MAX_LEN\<close>.
\<close>

lemma distinct_map_filter_nth:
  "distinct (map f (filter P xs)) \<longleftrightarrow>
     (\<forall>i<length xs. \<forall>j<length xs. i \<noteq> j \<longrightarrow> P (xs ! i) \<longrightarrow> P (xs ! j) \<longrightarrow> f (xs ! i) \<noteq> f (xs ! j))"
proof (induction xs)
  case Nil
  show ?case by simp
next
  case (Cons x xs)
  have in_iff: "f x \<in> f ` {y \<in> set xs. P y} \<longleftrightarrow> (\<exists>j<length xs. P (xs ! j) \<and> f (xs ! j) = f x)"
  proof
    assume "f x \<in> f ` {y \<in> set xs. P y}"
    then obtain y where "y \<in> set xs" "P y" "f y = f x"
      by auto
    then show "\<exists>j<length xs. P (xs ! j) \<and> f (xs ! j) = f x"
      by (auto simp: in_set_conv_nth)
  next
    assume "\<exists>j<length xs. P (xs ! j) \<and> f (xs ! j) = f x"
    then obtain j where j: "j < length xs" "P (xs ! j)" "f (xs ! j) = f x"
      by blast
    then have "xs ! j \<in> {y \<in> set xs. P y}"
      by simp
    then have "f (xs ! j) \<in> f ` {y \<in> set xs. P y}"
      by (rule imageI)
    then show "f x \<in> f ` {y \<in> set xs. P y}"
      using j(3) by simp
  qed
  show ?case
  proof (cases "P x")
    case True
    show ?thesis
    proof
      assume d: "distinct (map f (filter P (x # xs)))"
      then have nx: "\<forall>j<length xs. P (xs ! j) \<longrightarrow> f (xs ! j) \<noteq> f x"
        and ih: "\<forall>i<length xs. \<forall>j<length xs. i \<noteq> j \<longrightarrow> P (xs ! i) \<longrightarrow> P (xs ! j) \<longrightarrow> f (xs ! i) \<noteq> f (xs ! j)"
        using True in_iff Cons.IH by auto
      show "\<forall>i<length (x # xs). \<forall>j<length (x # xs). i \<noteq> j \<longrightarrow> P ((x # xs) ! i) \<longrightarrow>
          P ((x # xs) ! j) \<longrightarrow> f ((x # xs) ! i) \<noteq> f ((x # xs) ! j)"
      proof (intro allI impI)
        fix i j
        assume "i < length (x # xs)" "j < length (x # xs)" "i \<noteq> j"
          "P ((x # xs) ! i)" "P ((x # xs) ! j)"
        then show "f ((x # xs) ! i) \<noteq> f ((x # xs) ! j)"
          using nx ih by (cases i; cases j) (auto dest: not_sym)
      qed
    next
      assume a: "\<forall>i<length (x # xs). \<forall>j<length (x # xs). i \<noteq> j \<longrightarrow> P ((x # xs) ! i) \<longrightarrow>
          P ((x # xs) ! j) \<longrightarrow> f ((x # xs) ! i) \<noteq> f ((x # xs) ! j)"
      have "f (xs ! j) \<noteq> f x" if "j < length xs" "P (xs ! j)" for j
        using a [rule_format, of "Suc j" 0] that True by simp
      moreover have "f (xs ! i) \<noteq> f (xs ! j)"
        if "i < length xs" "j < length xs" "i \<noteq> j" "P (xs ! i)" "P (xs ! j)" for i j
        using a [rule_format, of "Suc i" "Suc j"] that by simp
      ultimately show "distinct (map f (filter P (x # xs)))"
        using True in_iff Cons.IH by auto
    qed
  next
    case False
    show ?thesis
    proof
      assume "distinct (map f (filter P (x # xs)))"
      then have ih: "\<forall>i<length xs. \<forall>j<length xs. i \<noteq> j \<longrightarrow> P (xs ! i) \<longrightarrow> P (xs ! j) \<longrightarrow> f (xs ! i) \<noteq> f (xs ! j)"
        using False Cons.IH by simp
      show "\<forall>i<length (x # xs). \<forall>j<length (x # xs). i \<noteq> j \<longrightarrow> P ((x # xs) ! i) \<longrightarrow>
          P ((x # xs) ! j) \<longrightarrow> f ((x # xs) ! i) \<noteq> f ((x # xs) ! j)"
      proof (intro allI impI)
        fix i j
        assume "i < length (x # xs)" "j < length (x # xs)" "i \<noteq> j"
          "P ((x # xs) ! i)" "P ((x # xs) ! j)"
        then show "f ((x # xs) ! i) \<noteq> f ((x # xs) ! j)"
          using False ih by (cases i; cases j) auto
      qed
    next
      assume a: "\<forall>i<length (x # xs). \<forall>j<length (x # xs). i \<noteq> j \<longrightarrow> P ((x # xs) ! i) \<longrightarrow>
          P ((x # xs) ! j) \<longrightarrow> f ((x # xs) ! i) \<noteq> f ((x # xs) ! j)"
      have "f (xs ! i) \<noteq> f (xs ! j)"
        if "i < length xs" "j < length xs" "i \<noteq> j" "P (xs ! i)" "P (xs ! j)" for i j
        using a [rule_format, of "Suc i" "Suc j"] that by simp
      then show "distinct (map f (filter P (x # xs)))"
        using False Cons.IH by auto
    qed
  qed
qed

lemma length_filter_update:
  "i < length xs \<Longrightarrow>
   length (filter P (xs[i := e])) + (if P (xs ! i) then 1 else 0) =
   length (filter P xs) + (if P e then 1 else 0)"
proof (induction xs arbitrary: i)
  case Nil
  then show ?case by simp
next
  case (Cons x xs)
  show ?case
  proof (cases i)
    case 0
    then show ?thesis by simp
  next
    case (Suc k)
    then have "k < length xs"
      using Cons.prems by simp
    from Cons.IH [OF this] show ?thesis
      using Suc by simp
  qed
qed


lemma fs_inv_iff:
  "fs_inv st \<longleftrightarrow>
     unat (file_count (g_super st)) = used_count (g_files st) \<and>
     DATA_OFFSET \<le> unat (last_alloc (g_super st)) \<and>
     (\<forall>i<length (g_files st). used (g_files st ! i) \<noteq> 0 \<longrightarrow>
        unat (fsize (g_files st ! i)) \<le> FILE_REGION_SIZE) \<and>
     (\<forall>i<length (g_files st). \<forall>j<length (g_files st). i \<noteq> j \<longrightarrow>
        used (g_files st ! i) \<noteq> 0 \<longrightarrow> used (g_files st ! j) \<noteq> 0 \<longrightarrow>
        c_str (name (g_files st ! i)) \<noteq> c_str (name (g_files st ! j)))"
  unfolding fs_inv_def distinct_map_filter_nth list_all_length by auto

lemma last_alloc_ge: "DATA_OFFSET \<le> unat (last_alloc (g_super (fs_recompute_last_alloc st)))"
proof -
  have "(of_nat DATA_OFFSET :: 32 word) \<le> last_alloc (g_super (fs_recompute_last_alloc st))"
    unfolding last_alloc_recompute by (rule Max_ge) (simp_all add: finite_live)
  then have "unat (of_nat DATA_OFFSET :: 32 word) \<le> unat (last_alloc (g_super (fs_recompute_last_alloc st)))"
    by (simp only: word_le_nat_alt)
  then show ?thesis
    by (simp add: DATA_OFFSET_val)
qed

lemma fs_inv_sync_recompute:
  "fs_inv (snd (sync_return env r (fs_recompute_last_alloc st))) \<longleftrightarrow>
     unat (file_count (g_super st)) = used_count (g_files st) \<and>
     (\<forall>i<length (g_files st). used (g_files st ! i) \<noteq> 0 \<longrightarrow>
        unat (fsize (g_files st ! i)) \<le> FILE_REGION_SIZE) \<and>
     (\<forall>i<length (g_files st). \<forall>j<length (g_files st). i \<noteq> j \<longrightarrow>
        used (g_files st ! i) \<noteq> 0 \<longrightarrow> used (g_files st ! j) \<noteq> 0 \<longrightarrow>
        c_str (name (g_files st ! i)) \<noteq> c_str (name (g_files st ! j)))"
  using last_alloc_ge [of st] by (simp add: fs_inv_iff snd_sync_return)

lemma used_count_le: "used_count fs \<le> length fs"
  by (simp add: used_count_def)

lemma fs_inv_modify:
  assumes inv: "fs_inv st" and i: "i < length (g_files st)"
    and u: "used e = used (g_files st ! i)" and n: "name e = name (g_files st ! i)"
    and sz: "unat (fsize e) \<le> FILE_REGION_SIZE"
    and st1: "g_files st1 = (g_files st)[i := e]" "g_super st1 = g_super st"
  shows "fs_inv (snd (sync_return env r (fs_recompute_last_alloc st1)))"
proof -
  let ?fs = "g_files st"
  have k: "used (?fs[i := e] ! k) = used (?fs ! k)" "name (?fs[i := e] ! k) = name (?fs ! k)"
    if "k < length ?fs" for k
    using that i u n by (auto simp: nth_list_update)
  have "length (filter (\<lambda>e. used e \<noteq> 0) (?fs[i := e])) = length (filter (\<lambda>e. used e \<noteq> 0) ?fs)"
    using length_filter_update [OF i, of "\<lambda>e. used e \<noteq> 0" e] u by simp
  then have c: "used_count (?fs[i := e]) = used_count ?fs"
    by (simp add: used_count_def)
  have s: "unat (fsize (?fs[i := e] ! k)) \<le> FILE_REGION_SIZE"
    if "k < length ?fs" "used (?fs ! k) \<noteq> 0" for k
    using that i sz inv by (cases "k = i") (simp_all add: fs_inv_iff)
  show ?thesis
    unfolding fs_inv_sync_recompute st1 using inv c
    by (simp add: fs_inv_iff k s)
qed

lemma fs_inv_insert:
  assumes inv: "fs_inv st" and i: "i < length (g_files st)"
    and free: "used (g_files st ! i) = 0"
    and u: "used e \<noteq> 0" and sz: "unat (fsize e) \<le> FILE_REGION_SIZE"
    and fresh: "\<forall>j<length (g_files st). used (g_files st ! j) \<noteq> 0 \<longrightarrow>
                  c_str (name (g_files st ! j)) \<noteq> c_str (name e)"
    and len: "length (g_files st) \<le> MAX_FILES"
    and st1: "g_files st1 = (g_files st)[i := e]"
      "file_count (g_super st1) = file_count (g_super st) + 1"
  shows "fs_inv (snd (sync_return env r (fs_recompute_last_alloc st1)))"
proof -
  let ?fs = "g_files st"
  have "length (filter (\<lambda>e. used e \<noteq> 0) (?fs[i := e])) = length (filter (\<lambda>e. used e \<noteq> 0) ?fs) + 1"
    using length_filter_update [OF i, of "\<lambda>e. used e \<noteq> 0" e] u free by simp
  then have c: "used_count (?fs[i := e]) = used_count ?fs + 1"
    by (simp add: used_count_def)
  have fc: "unat (file_count (g_super st)) = used_count ?fs"
    using inv by (simp add: fs_inv_iff)
  have "used_count ?fs \<le> 64"
    using used_count_le [of ?fs] len by (simp add: MAX_FILES_def)
  then have "unat (file_count (g_super st)) + unat (1 :: 32 word) < 2 ^ LENGTH(32)"
    by (simp add: fc)
  then have "unat (file_count (g_super st) + 1) = unat (file_count (g_super st)) + unat (1 :: 32 word)"
    by (simp only: unat_add_lem)
  then have fc1: "unat (file_count (g_super st1)) = used_count (?fs[i := e])"
    by (simp add: st1 c fc)
  have s: "unat (fsize (?fs[i := e] ! k)) \<le> FILE_REGION_SIZE"
    if "k < length ?fs" "used (?fs[i := e] ! k) \<noteq> 0" for k
    using that i sz inv by (cases "k = i") (simp_all add: fs_inv_iff)
  have d: "c_str (name (?fs[i := e] ! k)) \<noteq> c_str (name (?fs[i := e] ! l))"
    if "k < length ?fs" "l < length ?fs" "k \<noteq> l"
      "used (?fs[i := e] ! k) \<noteq> 0" "used (?fs[i := e] ! l) \<noteq> 0" for k l
  proof (cases "k = i")
    case True
    then have "l \<noteq> i" using that by simp
    then show ?thesis
      using that True i fresh [rule_format, of l] by (auto dest: not_sym)
  next
    case False
    show ?thesis
    proof (cases "l = i")
      case True
      then show ?thesis
        using that False i fresh [rule_format, of k] by auto
    next
      case l: False
      then show ?thesis
        using that False inv by (simp add: fs_inv_iff)
    qed
  qed
  show ?thesis
    unfolding fs_inv_sync_recompute using fc1 s d by (simp add: st1)
qed

lemma fs_inv_remove:
  assumes inv: "fs_inv st" and i: "i < length (g_files st)"
    and us: "used (g_files st ! i) \<noteq> 0" and u: "used e = 0"
    and st1: "g_files st1 = (g_files st)[i := e]"
      "file_count (g_super st1) = file_count (g_super st) - 1"
  shows "fs_inv (snd (sync_return env r (fs_recompute_last_alloc st1)))"
proof -
  let ?fs = "g_files st"
  have "length (filter (\<lambda>e. used e \<noteq> 0) (?fs[i := e])) + 1 = length (filter (\<lambda>e. used e \<noteq> 0) ?fs)"
    using length_filter_update [OF i, of "\<lambda>e. used e \<noteq> 0" e] u us by simp
  then have c: "used_count (?fs[i := e]) + 1 = used_count ?fs"
    by (simp add: used_count_def)
  have fc: "unat (file_count (g_super st)) = used_count ?fs"
    using inv by (simp add: fs_inv_iff)
  then have "file_count (g_super st) \<noteq> 0"
    using c by auto
  then have "unat (file_count (g_super st) - 1) = unat (file_count (g_super st)) - 1"
    by (rule unat_minus_one)
  then have fc1: "unat (file_count (g_super st1)) = used_count (?fs[i := e])"
    using c by (simp add: st1 fc)
  have s: "unat (fsize (?fs[i := e] ! k)) \<le> FILE_REGION_SIZE"
    if "k < length ?fs" "used (?fs[i := e] ! k) \<noteq> 0" for k
    using that i u inv by (cases "k = i") (simp_all add: fs_inv_iff)
  have d: "c_str (name (?fs[i := e] ! k)) \<noteq> c_str (name (?fs[i := e] ! l))"
    if "k < length ?fs" "l < length ?fs" "k \<noteq> l"
      "used (?fs[i := e] ! k) \<noteq> 0" "used (?fs[i := e] ! l) \<noteq> 0" for k l
  proof -
    have "k \<noteq> i" "l \<noteq> i"
      using that i u by auto
    then show ?thesis
      using that inv by (simp add: fs_inv_iff)
  qed
  show ?thesis
    unfolding fs_inv_sync_recompute using fc1 s d by (simp add: st1)
qed


lemma fs_inv_disk [simp]: "fs_inv (st\<lparr>g_fs_file := x\<rparr>) = fs_inv st"
  by (simp add: fs_inv_def)

lemma find_Some_used:
  assumes "find_file_by_name fs p = Some idx"
  shows "idx < MAX_FILES" "used (fs ! idx) \<noteq> 0"
  using assms by (simp_all add: find_file_by_name_Some name_match_def)

lemma fresh_name:
  assumes nf: "find_file_by_name fs p = None"
    and short: "length (c_str (skip_slash p)) < NAME_MAX_LEN"
    and j: "j < MAX_FILES" "used (fs ! j) \<noteq> 0"
  shows "c_str (name (fs ! j)) \<noteq> take (NAME_MAX_LEN - 1) (c_str (skip_slash p))"
proof
  assume e: "c_str (name (fs ! j)) = take (NAME_MAX_LEN - 1) (c_str (skip_slash p))"
  have "take (NAME_MAX_LEN - 1) (c_str (skip_slash p)) = c_str (skip_slash p)"
    using short by simp
  with e have "name_match fs p j"
    using j by (simp add: name_match_def)
  with nf j show False
    by (simp add: find_file_by_name_None)
qed

lemma fs_inv_new_entry:
  assumes wf: "wf_table (g_files st)" and inv: "fs_inv st"
    and short: "length (c_str (skip_slash path)) < NAME_MAX_LEN"
    and nf: "find_file_by_name (g_files st) path = None"
    and a: "alloc_file_slot (g_files st) = Some idx"
  shows "fs_inv (snd (sync_return env r (fs_recompute_last_alloc
     (st\<lparr>g_files := (g_files st)[idx := (g_files st ! idx)
                   \<lparr>used := 1,
                    name := strncpy (replicate NAME_MAX_LEN NUL) (skip_slash path) (NAME_MAX_LEN - 1),
                    fsize := 0, perms := mode, mtime := t, start := 0\<rparr>],
         g_super := (g_super st)\<lparr>file_count := file_count (g_super st) + 1\<rparr>\<rparr>))))"
proof -
  let ?nm = "strncpy (replicate NAME_MAX_LEN NUL) (skip_slash path) (NAME_MAX_LEN - 1)"
  let ?e = "(g_files st ! idx)\<lparr>used := 1, name := ?nm, fsize := 0, perms := mode,
              mtime := t, start := 0\<rparr>"
  have len: "length (g_files st) = MAX_FILES"
    using wf by (simp add: wf_table_def)
  have idx: "idx < MAX_FILES" "used (g_files st ! idx) = 0"
    using a by (simp_all add: alloc_file_slot_Some)
  have cs: "c_str ?nm = take (NAME_MAX_LEN - 1) (c_str (skip_slash path))"
    by (rule c_str_strncpy) (simp add: NAME_MAX_LEN_def)
  have e: "name ?e = ?nm" "used ?e = 1" "fsize ?e = 0"
    by simp_all
  show ?thesis
  proof (rule fs_inv_insert [OF inv, where i = idx and e = ?e])
    show "idx < length (g_files st)"
      using idx len by simp
    show "used (g_files st ! idx) = 0"
      by (rule idx)
    show "used ?e \<noteq> 0"
      unfolding e by simp
    show "unat (fsize ?e) \<le> FILE_REGION_SIZE"
      unfolding e by simp
    show "\<forall>j<length (g_files st). used (g_files st ! j) \<noteq> 0 \<longrightarrow>
        c_str (name (g_files st ! j)) \<noteq> c_str (name ?e)"
      unfolding e cs len using fresh_name [OF nf short] by blast
    show "length (g_files st) \<le> MAX_FILES"
      using len by simp
  qed simp_all
qed

lemma fs_inv_my_create:
  assumes wf: "wf_table (g_files st)" and inv: "fs_inv st"
    and short: "length (c_str (skip_slash path)) < NAME_MAX_LEN"
  shows "fs_inv (snd (my_create env path mode st))"
proof (cases "find_file_by_name (g_files st) path")
  case (Some idx)
  then show ?thesis
    using inv by (simp add: my_create_def)
next
  case None
  show ?thesis
  proof (cases "alloc_file_slot (g_files st)")
    case none: None
    then show ?thesis
      using None inv by (simp add: my_create_def)
  next
    case (Some idx)
    show ?thesis
      unfolding my_create_new [OF None Some]
      by (rule fs_inv_new_entry [OF wf inv short None Some])
  qed
qed

lemma fs_inv_my_open:
  assumes wf: "wf_table (g_files st)" and inv: "fs_inv st"
    and short: "length (c_str (skip_slash path)) < NAME_MAX_LEN"
  shows "fs_inv (snd (my_open env path flags st))"
proof (cases "find_file_by_name (g_files st) path")
  case None
  show ?thesis
  proof (cases "flags AND O_CREAT = 0")
    case True
    then show ?thesis
      using None inv by (simp add: my_open_def)
  next
    case False
    show ?thesis
    proof (cases "alloc_file_slot (g_files st)")
      case none: None
      then show ?thesis
        using None False inv by (simp add: my_open_def)
    next
      case (Some idx)
      have "my_open env path flags st =
          sync_return env idx (fs_recompute_last_alloc
            (st\<lparr>g_files := (g_files st)[idx := (g_files st ! idx)
                   \<lparr>used := 1,
                    name := strncpy (replicate NAME_MAX_LEN NUL) (skip_slash path) (NAME_MAX_LEN - 1),
                    fsize := 0, perms := 0x1A4, mtime := ucast (now env), start := 0\<rparr>],
                g_super := (g_super st)\<lparr>file_count := file_count (g_super st) + 1\<rparr>\<rparr>))"
        using None False Some by (simp add: my_open_def Let_def)
      then show ?thesis
        using fs_inv_new_entry [OF wf inv short None Some] by simp
    qed
  qed
next
  case (Some idx)
  show ?thesis
  proof (cases "flags AND O_TRUNC = 0")
    case True
    then show ?thesis
      using Some inv by (simp add: my_open_def)
  next
    case False
    let ?e = "(g_files st ! idx)\<lparr>fsize := 0, mtime := ucast (now env)\<rparr>"
    have o: "my_open env path flags st =
        sync_return env idx (fs_recompute_last_alloc (st\<lparr>g_files := (g_files st)[idx := ?e]\<rparr>))"
      using Some False by (simp add: my_open_def Let_def)
    have "idx < length (g_files st)"
      using find_Some_used(1) [OF Some] wf by (simp add: wf_table_def)
    then show ?thesis
      unfolding o using inv by (intro fs_inv_modify [where st = st and i = idx and e = ?e]) simp_all
  qed
qed

lemma fs_inv_my_unlink:
  assumes wf: "wf_table (g_files st)" and inv: "fs_inv st"
  shows "fs_inv (snd (my_unlink env path st))"
proof (cases "find_file_by_name (g_files st) path")
  case None
  then show ?thesis
    using inv by (simp add: my_unlink_def)
next
  case (Some idx)
  have "idx < length (g_files st)"
    using find_Some_used(1) [OF Some] wf by (simp add: wf_table_def)
  then show ?thesis
    unfolding my_unlink_found [OF Some] using inv find_Some_used(2) [OF Some]
    by (intro fs_inv_remove [where st = st and i = idx and e = zero_entry]) simp_all
qed

lemma fs_inv_my_truncate:
  assumes wf: "wf_table (g_files st)" and inv: "fs_inv st"
  shows "fs_inv (snd (my_truncate env path sz st))"
proof (cases "find_file_by_name (g_files st) path")
  case None
  then show ?thesis
    using inv by (simp add: my_truncate_def)
next
  case (Some idx)
  show ?thesis
  proof (cases "sz > of_nat FILE_REGION_SIZE")
    case True
    then show ?thesis
      using Some inv by (simp add: my_truncate_def)
  next
    case False
    let ?e = "(g_files st ! idx)\<lparr>fsize := ucast sz, mtime := ucast (now env)\<rparr>"
    have t: "my_truncate env path sz st =
        sync_return env () (fs_recompute_last_alloc (st\<lparr>g_files := (g_files st)[idx := ?e]\<rparr>))"
      using Some False by (simp add: my_truncate_def Let_def)
    have "unat (of_nat FILE_REGION_SIZE :: 64 word) = FILE_REGION_SIZE"
      by (simp add: unat_of_nat_64 FILE_REGION_SIZE_val)
    then have le: "unat sz \<le> FILE_REGION_SIZE"
      using False by (simp add: word_less_nat_alt)
    then have "unat (ucast sz :: 32 word) = unat sz"
      by (intro unat_ucast_64_32) (simp add: FILE_REGION_SIZE_val)
    then have s: "unat (fsize ?e) \<le> FILE_REGION_SIZE"
      using le by simp
    have "idx < length (g_files st)"
      using find_Some_used(1) [OF Some] wf by (simp add: wf_table_def)
    then show ?thesis
      unfolding t using inv s
      by (intro fs_inv_modify [where st = st and i = idx and e = ?e]) simp_all
  qed
qed


lemma fs_inv_my_write:
  assumes wf: "wf_table (g_files st)" and inv: "fs_inv st"
  shows "fs_inv (snd (my_write env fh buf offset st))"
proof (cases "bad_fh (g_files st) fh")
  case True
  then show ?thesis
    using inv by (simp add: my_write_def)
next
  case ok: False
  let ?sz = "of_nat (length buf) :: 64 word"
  let ?idx = "nat (fh_idx fh)"
  let ?fe = "g_files st ! ?idx"
  have idx: "?idx < MAX_FILES" "used ?fe \<noteq> 0"
    using ok by (auto simp: bad_fh_def)
  have len: "length (g_files st) = MAX_FILES"
    using wf by (simp add: wf_table_def)
  show ?thesis
  proof (cases "offset + ?sz > of_nat FILE_REGION_SIZE")
    case True
    then show ?thesis
      using ok inv by (simp add: my_write_def Let_def)
  next
    case fits: False
    let ?pos = "unat (ucast ((ucast (region_start ?idx) :: 64 word) + offset) :: 32 word)"
    let ?w = "min (data_xfer env) (unat ?sz)"
    let ?new_end = "ucast (offset + ?sz) :: 32 word"
    let ?fe2 = "(if ?new_end > fsize ?fe then ?fe\<lparr>fsize := ?new_end\<rparr> else ?fe)\<lparr>mtime := ucast (now env)\<rparr>"
    let ?st1 = "st\<lparr>g_fs_file := write_at (g_fs_file st) ?pos (take ?w buf)\<rparr>"
    show ?thesis
    proof (cases "seek_ok env \<and> ?w = unat ?sz")
      case False
      then have "snd (my_write env fh buf offset st) = st \<or> snd (my_write env fh buf offset st) = ?st1"
        using ok fits by (auto simp: my_write_def Let_def)
      then show ?thesis
        using inv by auto
    next
      case True
      then have w: "my_write env fh buf offset st =
          sync_return env (sint (of_nat ?w :: 32 word))
            (fs_recompute_last_alloc (?st1\<lparr>g_files := (g_files ?st1)[?idx := ?fe2]\<rparr>))"
        using ok fits by (simp add: my_write_def Let_def)
      have "unat (of_nat FILE_REGION_SIZE :: 64 word) = FILE_REGION_SIZE"
        by (simp add: unat_of_nat_64 FILE_REGION_SIZE_val)
      then have le: "unat (offset + ?sz) \<le> FILE_REGION_SIZE"
        using fits by (simp add: word_less_nat_alt)
      then have "unat ?new_end = unat (offset + ?sz)"
        by (intro unat_ucast_64_32) (simp add: FILE_REGION_SIZE_val)
      then have ne: "unat ?new_end \<le> FILE_REGION_SIZE"
        using le by simp
      have old: "unat (fsize ?fe) \<le> FILE_REGION_SIZE"
        using inv idx len by (simp add: fs_inv_iff)
      have s: "unat (fsize ?fe2) \<le> FILE_REGION_SIZE"
        using ne old by simp
      have u: "used ?fe2 = used ?fe" "name ?fe2 = name ?fe"
        by simp_all
      show ?thesis
        unfolding w using inv
      proof (rule fs_inv_modify [where i = ?idx and e = ?fe2])
        show "?idx < length (g_files st)"
          using idx len by simp
        show "used ?fe2 = used ?fe" "name ?fe2 = name ?fe"
          by (rule u)+
        show "unat (fsize ?fe2) \<le> FILE_REGION_SIZE"
          by (rule s)
      qed simp_all
    qed
  qed
qed

lemma fs_inv_fs_format: "fs_inv (snd (fs_format env created))"
proof -
  have "fs_inv \<lparr>g_super = \<lparr>magic = FS_MAGIC, version = FS_VERSION,
                            last_alloc = of_nat DATA_OFFSET, file_count = 0\<rparr>,
                g_files = replicate MAX_FILES zero_entry, g_fs_file = f\<rparr>" for f
    by (simp add: fs_inv_def used_count_def list_all_iff DATA_OFFSET_val)
  then show ?thesis
    by (simp add: fs_format_def Let_def snd_sync_return)
qed

lemma fs_inv_my_oper:
  assumes "wf_table (g_files st)" "fs_inv st" "short_name_op op"
  shows "fs_inv (snd (my_oper env op st))"
  using assms
  by (cases op)
    (simp_all add: with_reply_def my_release_def fs_inv_my_create fs_inv_my_open fs_inv_my_write
      fs_inv_my_unlink fs_inv_my_truncate)

section \<open>Creating a long name twice\<close>

lemma create_long_step:
  assumes wf: "wf_table (g_files st)"
    and nt: "names_terminated (g_files st)"
    and long: "NAME_MAX_LEN \<le> length (c_str (skip_slash path))"
    and free: "alloc_file_slot (g_files st) = Some h"
    and io: "META_SIZE \<le> meta_xfer env"
  shows "fst (my_create env path mode st) = Inr h"
    and "g_files (snd (my_create env path mode st)) =
           (g_files st)[h := (g_files st ! h)
              \<lparr>used := 1, name := take (NAME_MAX_LEN - 1) (c_str (skip_slash path)) @ [NUL],
               fsize := 0, perms := mode, mtime := ucast (now env), start := 0\<rparr>]"
    and "file_count (g_super (snd (my_create env path mode st))) = file_count (g_super st) + 1"
    and "wf_table (g_files (snd (my_create env path mode st)))"
    and "names_terminated (g_files (snd (my_create env path mode st)))"
proof -
  let ?st1 = "snd (my_create env path mode st)"
  let ?nm = "strncpy (replicate NAME_MAX_LEN NUL) (skip_slash path) (NAME_MAX_LEN - 1)"
  have nf: "find_file_by_name (g_files st) path = None"
    using nt long by (rule long_not_found)
  have nm: "?nm = take (NAME_MAX_LEN - 1) (c_str (skip_slash path)) @ [NUL]"
    using long by (simp add: strncpy_def Let_def NAME_MAX_LEN_def)
  have cs: "c_str ?nm = take (NAME_MAX_LEN - 1) (c_str (skip_slash path))"
    by (rule c_str_strncpy) (simp add: NAME_MAX_LEN_def)
  have lcs: "length (c_str ?nm) < NAME_MAX_LEN"
    unfolding cs by (simp add: NAME_MAX_LEN_def)
  have ln: "length ?nm = NAME_MAX_LEN"
    by (rule length_strncpy) simp
  show "fst (my_create env path mode st) = Inr h"
    using io by (simp add: fst_my_create_new [OF wf nf free])
  show fs1: "g_files ?st1 =
           (g_files st)[h := (g_files st ! h)
              \<lparr>used := 1, name := take (NAME_MAX_LEN - 1) (c_str (skip_slash path)) @ [NUL],
               fsize := 0, perms := mode, mtime := ucast (now env), start := 0\<rparr>]"
    unfolding g_files_my_create_new [OF nf free] nm ..
  show "file_count (g_super ?st1) = file_count (g_super st) + 1"
    by (rule file_count_my_create_new [OF nf free])
  let ?e = "(g_files st ! h)\<lparr>used := 1, name := ?nm, fsize := 0, perms := mode,
              mtime := ucast (now env), start := 0\<rparr>"
  have ne: "name ?e = ?nm"
    by simp
  show "wf_table (g_files ?st1)"
    unfolding g_files_my_create_new [OF nf free] using wf
  proof (rule wf_table_update)
    show "length (name ?e) = NAME_MAX_LEN"
      unfolding ne by (rule ln)
  qed
  have len: "length (g_files st) = MAX_FILES"
    using wf by (simp add: wf_table_def)
  show "names_terminated (g_files ?st1)"
    unfolding g_files_my_create_new [OF nf free] using nt len
  proof (rule names_terminated_update)
    show "length (c_str (name ?e)) < NAME_MAX_LEN"
      unfolding ne by (rule lcs)
  qed
qed

lemma ex_long_stored:
  "take (NAME_MAX_LEN - 1) (c_str (skip_slash ex_long)) @ [NUL] = replicate 31 (CHR ''a'') @ [NUL]"
  by (simp add: skip_slash_ex_long c_str_replicate NAME_MAX_LEN_def)

lemma ex_long_first:
  "fst (my_create ex_env ex_long 0x1A4 (ex_state ex_fresh)) = Inr 0"
  "g_files (snd (my_create ex_env ex_long 0x1A4 (ex_state ex_fresh))) =
     ex_long_entry # zero_entry # replicate 62 zero_entry"
  "file_count (g_super (snd (my_create ex_env ex_long 0x1A4 (ex_state ex_fresh)))) = 1"
  "wf_table (g_files (snd (my_create ex_env ex_long 0x1A4 (ex_state ex_fresh))))"
  "names_terminated (g_files (snd (my_create ex_env ex_long 0x1A4 (ex_state ex_fresh))))"
proof -
  have wf: "wf_table (g_files (ex_state ex_fresh))"
    and nt: "names_terminated (g_files (ex_state ex_fresh))"
    and free: "alloc_file_slot (g_files (ex_state ex_fresh)) = Some 0"
    by (simp_all add: wf_ex_fresh names_terminated_ex_fresh alloc_ex_fresh)
  have io: "META_SIZE \<le> meta_xfer ex_env"
    by (simp add: ex_env_def)
  note s = create_long_step [OF wf nt long_ex_long free io, of "0x1A4"]
  show "fst (my_create ex_env ex_long 0x1A4 (ex_state ex_fresh)) = Inr 0"
    by (rule s)
  show "g_files (snd (my_create ex_env ex_long 0x1A4 (ex_state ex_fresh))) =
     ex_long_entry # zero_entry # replicate 62 zero_entry"
    unfolding s(2) ex_long_stored
    by (simp add: ex_fresh_Cons ex_long_entry_def zero_entry_def ex_env_def)
  show "file_count (g_super (snd (my_create ex_env ex_long 0x1A4 (ex_state ex_fresh)))) = 1"
    unfolding s(3) by (simp add: ex_fresh_def)
  show "wf_table (g_files (snd (my_create ex_env ex_long 0x1A4 (ex_state ex_fresh))))"
    by (rule s)
  show "names_terminated (g_files (snd (my_create ex_env ex_long 0x1A4 (ex_state ex_fresh))))"
    by (rule s)
qed

lemma ex_long_second:
  "fst (my_create ex_env ex_long 0x1A4
          (snd (my_create ex_env ex_long 0x1A4 (ex_state ex_fresh)))) = Inr 1"
  "g_files (snd (my_create ex_env ex_long 0x1A4
          (snd (my_create ex_env ex_long 0x1A4 (ex_state ex_fresh))))) =
     ex_long_entry # ex_long_entry # replicate 62 zero_entry"
  "file_count (g_super (snd (my_create ex_env ex_long 0x1A4
          (snd (my_create ex_env ex_long 0x1A4 (ex_state ex_fresh)))))) = 2"
proof -
  let ?st1 = "snd (my_create ex_env ex_long 0x1A4 (ex_state ex_fresh))"
  have free: "alloc_file_slot (g_files ?st1) = Some 1"
    unfolding ex_long_first(2)
    by (simp add: alloc_file_slot_Some MAX_FILES_def ex_long_entry_def)
  have io: "META_SIZE \<le> meta_xfer ex_env"
    by (simp add: ex_env_def)
  note s = create_long_step [OF ex_long_first(4) ex_long_first(5) long_ex_long free io, of "0x1A4"]
  show "fst (my_create ex_env ex_long 0x1A4 ?st1) = Inr 1"
    by (rule s)
  show "g_files (snd (my_create ex_env ex_long 0x1A4 ?st1)) =
     ex_long_entry # ex_long_entry # replicate 62 zero_entry"
    unfolding s(2) ex_long_stored ex_long_first(2)
    by (simp add: ex_long_entry_def zero_entry_def ex_env_def)
  show "file_count (g_super (snd (my_create ex_env ex_long 0x1A4 ?st1))) = 2"
    unfolding s(3) ex_long_first(3) by simp
qed

lemma ex_long_once_eq: "ex_long_once = snd (my_create ex_env ex_long 0x1A4 (ex_state ex_fresh))"
  by (simp add: ex_long_once_def fs_format_ex)

text \<open>
  C3 does not hold of the code. The claim is that a second \<open>my_create\<close> of the same
  name returns the slot of the first and changes nothing. For the path \<open>ex_long\<close>,
  whose name has 32 characters, on the file system that \<open>fs_format\<close> leaves, the
  first call returns slot 0 and the second returns slot 1 and raises \<open>file_count\<close>
  from 1 to 2: \<open>my_create\<close> stores \<open>NAME_MAX_LEN - 1\<close> characters of the name and
  \<open>find_file_by_name\<close> compares \<open>NAME_MAX_LEN\<close> characters of the query with them.
\<close>

theorem create_long_name_twice:
  "fs_format ex_env True = (Inr (), ex_state ex_fresh) \<and>
   fst (my_create ex_env ex_long 0x1A4 (snd (fs_format ex_env True))) = Inr 0 \<and>
   file_count (g_super ex_long_once) = 1 \<and>
   fst (my_create ex_env ex_long 0x1A4 ex_long_once) = Inr 1 \<and>
   file_count (g_super ex_long_twice) = 2"
  by (simp add: ex_long_twice_def ex_long_once_eq fs_format_ex ex_long_first ex_long_second)

lemma fs_inv_ex_fresh: "fs_inv (ex_state ex_fresh)"
proof -
  have "last_alloc (g_super (ex_state ex_fresh)) = of_nat DATA_OFFSET"
    by (simp add: last_alloc_ex_state live_ex_fresh)
  then have "unat (last_alloc (g_super (ex_state ex_fresh))) = DATA_OFFSET"
    by (simp add: DATA_OFFSET_val)
  then show ?thesis
    by (simp add: fs_inv_def used_count_def) (simp add: ex_fresh_def list_all_iff)
qed

text \<open>
  C4 does not hold of the code. The claim is that every operation preserves the
  state invariant. The file system that \<open>fs_format\<close> leaves satisfies \<open>fs_inv\<close>; after
  two calls of \<open>my_create\<close> for the path \<open>ex_long\<close> the entries of slots 0 and 1 are
  both used and hold the same name, so the names of the used entries are no longer
  distinct.
\<close>

theorem create_long_name_twice_breaks_invariant:
  "fs_inv (snd (fs_format ex_env True)) \<and>
   used (g_files ex_long_twice ! 0) = 1 \<and>
   used (g_files ex_long_twice ! 1) = 1 \<and>
   name (g_files ex_long_twice ! 0) = name (g_files ex_long_twice ! 1) \<and>
   \<not> fs_inv ex_long_twice"
  by (simp add: fs_format_ex fs_inv_ex_fresh ex_long_twice_def ex_long_once_eq ex_long_second)
    (simp add: fs_inv_def ex_long_second ex_long_entry_def)

section \<open>The stored mode is not read back\<close>

lemma no_perms_simps [simp]:
  "used (no_perms e) = used e" "name (no_perms e) = name e" "fsize (no_perms e) = fsize e"
  "mtime (no_perms e) = mtime e" "start (no_perms e) = start e"
  by (simp_all add: no_perms_def)

lemma no_perms_update [simp]:
  "no_perms (e\<lparr>perms := p\<rparr>) = no_perms e"
  "no_perms (e\<lparr>used := u\<rparr>) = (no_perms e)\<lparr>used := u\<rparr>"
  "no_perms (e\<lparr>name := n\<rparr>) = (no_perms e)\<lparr>name := n\<rparr>"
  "no_perms (e\<lparr>fsize := s\<rparr>) = (no_perms e)\<lparr>fsize := s\<rparr>"
  "no_perms (e\<lparr>mtime := t\<rparr>) = (no_perms e)\<lparr>mtime := t\<rparr>"
  "no_perms (e\<lparr>start := a\<rparr>) = (no_perms e)\<lparr>start := a\<rparr>"
  by (simp_all add: no_perms_def)

lemma perms_equivD:
  assumes "perms_equiv st' st"
  shows "g_super st' = g_super st"
    "drop DATA_OFFSET (g_fs_file st') = drop DATA_OFFSET (g_fs_file st)"
    "map no_perms (g_files st') = map no_perms (g_files st)"
  using assms by (simp_all add: perms_equiv_def)

lemma same_nth:
  assumes "map no_perms fs' = map no_perms fs" "i < length fs"
  shows "no_perms (fs' ! i) = no_perms (fs ! i)"
proof -
  have l: "length fs' = length fs"
    using assms(1) by (rule map_eq_imp_length_eq)
  have "map no_perms fs' ! i = map no_perms fs ! i"
    by (simp only: assms(1))
  then show ?thesis
    using assms(2) l by simp
qed

lemma same_fields:
  assumes "map no_perms fs' = map no_perms fs" "i < length fs"
  shows "used (fs' ! i) = used (fs ! i)" "name (fs' ! i) = name (fs ! i)"
    "fsize (fs' ! i) = fsize (fs ! i)" "mtime (fs' ! i) = mtime (fs ! i)"
proof -
  note e = same_nth [OF assms]
  show "used (fs' ! i) = used (fs ! i)"
    using arg_cong [OF e, of used] by simp
  show "name (fs' ! i) = name (fs ! i)"
    using arg_cong [OF e, of name] by simp
  show "fsize (fs' ! i) = fsize (fs ! i)"
    using arg_cong [OF e, of fsize] by simp
  show "mtime (fs' ! i) = mtime (fs ! i)"
    using arg_cong [OF e, of mtime] by simp
qed

lemma same_wf:
  assumes m: "map no_perms fs' = map no_perms fs" and wf: "wf_table fs"
  shows "wf_table fs'"
proof -
  have l: "length fs' = length fs"
    using m by (rule map_eq_imp_length_eq)
  have "length (name e) = NAME_MAX_LEN" if "e \<in> set fs'" for e
  proof -
    from that obtain i where i: "i < length fs'" "e = fs' ! i"
      by (auto simp: in_set_conv_nth)
    then have "name e = name (fs ! i)"
      using same_fields(2) [OF m, of i] l by simp
    then show ?thesis
      using wf i l by (simp add: wf_table_def)
  qed
  then show ?thesis
    using wf l by (simp add: wf_table_def)
qed

lemma same_find:
  assumes m: "map no_perms fs' = map no_perms fs" and len: "length fs = MAX_FILES"
  shows "find_file_by_name fs' p = find_file_by_name fs p"
  unfolding find_file_by_name_def
  by (rule find_cong) (simp_all add: same_fields [OF m] len)

lemma same_alloc:
  assumes m: "map no_perms fs' = map no_perms fs" and len: "length fs = MAX_FILES"
  shows "alloc_file_slot fs' = alloc_file_slot fs"
  unfolding alloc_file_slot_def
  by (rule find_cong) (simp_all add: same_fields [OF m] len)

lemma same_bad_fh:
  assumes m: "map no_perms fs' = map no_perms fs" and len: "length fs = MAX_FILES"
  shows "bad_fh fs' fh = bad_fh fs fh"
proof (cases "fh_idx fh < 0 \<or> fh_idx fh \<ge> int MAX_FILES")
  case True
  then show ?thesis
    by (auto simp: bad_fh_def)
next
  case False
  then have "nat (fh_idx fh) < length fs"
    using len by auto
  then show ?thesis
    by (simp add: bad_fh_def same_fields [OF m])
qed

lemma same_last_alloc:
  assumes m: "map no_perms fs' = map no_perms fs" and len: "length fs = MAX_FILES"
  shows "foldl (last_alloc_step fs') a [0..<MAX_FILES] = foldl (last_alloc_step fs) a [0..<MAX_FILES]"
  by (rule foldl_cong) (simp_all add: last_alloc_step_def same_fields [OF m] len)

lemma same_result_same:
  assumes "perms_equiv st' st"
  shows "same_result (x, st') (x, st)"
  using assms by (simp add: same_result_def)

lemma same_update:
  "map no_perms fs' = map no_perms fs \<Longrightarrow> no_perms e' = no_perms e \<Longrightarrow>
   map no_perms (fs'[i := e']) = map no_perms (fs[i := e])"
  by (simp add: map_update)

lemma same_sync:
  assumes wf: "wf_table (g_files st1)"
    and m: "map no_perms (g_files st1') = map no_perms (g_files st1)"
    and s: "g_super st1' = g_super st1"
    and d: "drop DATA_OFFSET (g_fs_file st1') = drop DATA_OFFSET (g_fs_file st1)"
  shows "same_result (sync_return env r (fs_recompute_last_alloc st1'))
           (sync_return env r (fs_recompute_last_alloc st1))"
proof -
  have wf': "wf_table (g_files st1')"
    using m wf by (rule same_wf)
  have len: "length (g_files st1) = MAX_FILES"
    using wf by (simp add: wf_table_def)
  have r: "g_super (fs_recompute_last_alloc st1') = g_super (fs_recompute_last_alloc st1)"
    by (simp add: fs_recompute_last_alloc_def s same_last_alloc [OF m len])
  have w: "wf_table (g_files (fs_recompute_last_alloc st1))" "wf_table (g_files (fs_recompute_last_alloc st1'))"
    using wf wf' by simp_all
  have f: "fst (sync_return env r (fs_recompute_last_alloc st1')) =
      fst (sync_return env r (fs_recompute_last_alloc st1))"
    by (simp add: fst_sync_return_wf [OF w(1)] fst_sync_return_wf [OF w(2)])
  have dd: "drop DATA_OFFSET (g_fs_file (snd (sync_return env r (fs_recompute_last_alloc st1')))) =
      drop DATA_OFFSET (g_fs_file (snd (sync_return env r (fs_recompute_last_alloc st1))))"
    using drop_meta_sync_return [OF w(1), of env r] drop_meta_sync_return [OF w(2), of env r] d
    by (simp add: DATA_OFFSET_def)
  show ?thesis
    unfolding same_result_def perms_equiv_def using f dd r m by (simp add: snd_sync_return)
qed

lemma same_my_create:
  assumes wf: "wf_table (g_files st)" and eq: "perms_equiv st' st"
  shows "same_result (my_create env path mode' st') (my_create env path mode st)"
proof -
  note e = perms_equivD [OF eq]
  have len: "length (g_files st) = MAX_FILES"
    using wf by (simp add: wf_table_def)
  have f: "find_file_by_name (g_files st') path = find_file_by_name (g_files st) path"
    and a: "alloc_file_slot (g_files st') = alloc_file_slot (g_files st)"
    using e(3) len by (rule same_find, rule same_alloc)
  show ?thesis
  proof (cases "find_file_by_name (g_files st) path")
    case (Some idx)
    then show ?thesis
      using f same_result_same [OF eq] by (simp add: my_create_def)
  next
    case None
    show ?thesis
    proof (cases "alloc_file_slot (g_files st)")
      case none: None
      then show ?thesis
        using None f a same_result_same [OF eq] by (simp add: my_create_def)
    next
      case (Some idx)
      have idx: "idx < length (g_files st)"
        using Some len by (simp add: alloc_file_slot_Some)
      have n: "find_file_by_name (g_files st') path = None" "alloc_file_slot (g_files st') = Some idx"
        using None Some f a by simp_all
      show ?thesis
        unfolding my_create_new [OF None Some, of env mode] my_create_new [OF n, of env mode']
      proof (rule same_sync)
        show "wf_table (g_files (st\<lparr>g_files := (g_files st)[idx := (g_files st ! idx)
             \<lparr>used := 1, name := strncpy (replicate NAME_MAX_LEN NUL) (skip_slash path) (NAME_MAX_LEN - 1),
              fsize := 0, perms := mode, mtime := ucast (now env), start := 0\<rparr>],
            g_super := (g_super st)\<lparr>file_count := file_count (g_super st) + 1\<rparr>\<rparr>))"
          using wf by (simp add: wf_table_update length_strncpy NAME_MAX_LEN_def)
      qed (simp_all add: e same_update same_nth [OF e(3) idx])
    qed
  qed
qed

lemma same_my_open:
  assumes wf: "wf_table (g_files st)" and eq: "perms_equiv st' st"
  shows "same_result (my_open env path flags st') (my_open env path flags st)"
proof -
  note e = perms_equivD [OF eq]
  have len: "length (g_files st) = MAX_FILES"
    using wf by (simp add: wf_table_def)
  have f: "find_file_by_name (g_files st') path = find_file_by_name (g_files st) path"
    and a: "alloc_file_slot (g_files st') = alloc_file_slot (g_files st)"
    using e(3) len by (rule same_find, rule same_alloc)
  show ?thesis
  proof (cases "find_file_by_name (g_files st) path")
    case None
    show ?thesis
    proof (cases "flags AND O_CREAT = 0 \<or> alloc_file_slot (g_files st) = None")
      case True
      then show ?thesis
        using None f a same_result_same [OF eq] by (auto simp: my_open_def)
    next
      case False
      then obtain idx where Some: "alloc_file_slot (g_files st) = Some idx"
        by auto
      have idx: "idx < length (g_files st)"
        using Some len by (simp add: alloc_file_slot_Some)
      let ?new = "\<lambda>s. s\<lparr>g_files := (g_files s)[idx := (g_files s ! idx)
             \<lparr>used := 1, name := strncpy (replicate NAME_MAX_LEN NUL) (skip_slash path) (NAME_MAX_LEN - 1),
              fsize := 0, perms := 0x1A4, mtime := ucast (now env), start := 0\<rparr>],
            g_super := (g_super s)\<lparr>file_count := file_count (g_super s) + 1\<rparr>\<rparr>"
      have o: "my_open env path flags st = sync_return env idx (fs_recompute_last_alloc (?new st))"
        "my_open env path flags st' = sync_return env idx (fs_recompute_last_alloc (?new st'))"
        using None False Some f a by (simp_all add: my_open_def Let_def)
      show ?thesis
        unfolding o
      proof (rule same_sync)
        show "wf_table (g_files (?new st))"
          using wf by (simp add: wf_table_update length_strncpy NAME_MAX_LEN_def)
      qed (simp_all add: e same_update same_nth [OF e(3) idx])
    qed
  next
    case (Some idx)
    have idx: "idx < length (g_files st)"
      using find_Some_used(1) [OF Some] len by simp
    show ?thesis
    proof (cases "flags AND O_TRUNC = 0")
      case True
      then show ?thesis
        using Some f same_result_same [OF eq] by (simp add: my_open_def)
    next
      case False
      let ?tr = "\<lambda>s. s\<lparr>g_files := (g_files s)[idx := (g_files s ! idx)\<lparr>fsize := 0, mtime := ucast (now env)\<rparr>]\<rparr>"
      have o: "my_open env path flags st = sync_return env idx (fs_recompute_last_alloc (?tr st))"
        "my_open env path flags st' = sync_return env idx (fs_recompute_last_alloc (?tr st'))"
        using Some False f by (simp_all add: my_open_def Let_def)
      show ?thesis
        unfolding o
      proof (rule same_sync)
        show "wf_table (g_files (?tr st))"
          using wf idx len by (simp add: wf_table_update wf_table_nth)
      qed (simp_all add: e same_update same_nth [OF e(3) idx])
    qed
  qed
qed

lemma same_my_unlink:
  assumes wf: "wf_table (g_files st)" and eq: "perms_equiv st' st"
  shows "same_result (my_unlink env path st') (my_unlink env path st)"
proof -
  note e = perms_equivD [OF eq]
  have len: "length (g_files st) = MAX_FILES"
    using wf by (simp add: wf_table_def)
  have f: "find_file_by_name (g_files st') path = find_file_by_name (g_files st) path"
    using e(3) len by (rule same_find)
  show ?thesis
  proof (cases "find_file_by_name (g_files st) path")
    case None
    then show ?thesis
      using f same_result_same [OF eq] by (simp add: my_unlink_def)
  next
    case (Some idx)
    have n: "find_file_by_name (g_files st') path = Some idx"
      using Some f by simp
    let ?rm = "\<lambda>s. s\<lparr>g_files := (g_files s)[idx := zero_entry],
              g_super := (g_super s)\<lparr>file_count := file_count (g_super s) - 1\<rparr>\<rparr>"
    show ?thesis
      unfolding my_unlink_found [OF Some] my_unlink_found [OF n]
    proof (rule same_sync)
      show "wf_table (g_files (?rm st))"
        using wf by (simp add: wf_table_update)
      show "map no_perms (g_files (?rm st')) = map no_perms (g_files (?rm st))"
        using same_update [OF e(3) refl, of idx zero_entry] by simp
      show "g_super (?rm st') = g_super (?rm st)"
        by (simp add: e(1))
      show "drop DATA_OFFSET (g_fs_file (?rm st')) = drop DATA_OFFSET (g_fs_file (?rm st))"
        by (simp add: e(2))
    qed
  qed
qed

lemma same_my_truncate:
  assumes wf: "wf_table (g_files st)" and eq: "perms_equiv st' st"
  shows "same_result (my_truncate env path sz st') (my_truncate env path sz st)"
proof -
  note e = perms_equivD [OF eq]
  have len: "length (g_files st) = MAX_FILES"
    using wf by (simp add: wf_table_def)
  have f: "find_file_by_name (g_files st') path = find_file_by_name (g_files st) path"
    using e(3) len by (rule same_find)
  show ?thesis
  proof (cases "find_file_by_name (g_files st) path")
    case None
    then show ?thesis
      using f same_result_same [OF eq] by (simp add: my_truncate_def)
  next
    case (Some idx)
    have idx: "idx < length (g_files st)"
      using find_Some_used(1) [OF Some] len by simp
    show ?thesis
    proof (cases "sz > of_nat FILE_REGION_SIZE")
      case True
      then show ?thesis
        using Some f same_result_same [OF eq] by (simp add: my_truncate_def)
    next
      case False
      let ?tr = "\<lambda>s. s\<lparr>g_files := (g_files s)[idx := (g_files s ! idx)\<lparr>fsize := ucast sz, mtime := ucast (now env)\<rparr>]\<rparr>"
      have o: "my_truncate env path sz st = sync_return env () (fs_recompute_last_alloc (?tr st))"
        "my_truncate env path sz st' = sync_return env () (fs_recompute_last_alloc (?tr st'))"
        using Some False f by (simp_all add: my_truncate_def Let_def)
      show ?thesis
        unfolding o
      proof (rule same_sync)
        show "wf_table (g_files (?tr st))"
          using wf idx len by (simp add: wf_table_update wf_table_nth)
      qed (simp_all add: e same_update same_nth [OF e(3) idx])
    qed
  qed
qed

lemma write_at_nth:
  assumes "i < length (write_at f pos bs)"
  shows "write_at f pos bs ! i =
     (if i < pos then (if i < length f then f ! i else NUL)
      else if i < pos + length bs then bs ! (i - pos) else f ! i)"
proof -
  have p: "length (take pos f @ replicate (pos - length f) NUL) = pos"
    by simp
  have w: "write_at f pos bs =
      (take pos f @ replicate (pos - length f) NUL) @ bs @ drop (pos + length bs) f"
    by (simp add: write_at_def)
  show ?thesis
  proof (cases "i < pos")
    case True
    then have "write_at f pos bs ! i = (take pos f @ replicate (pos - length f) NUL) ! i"
      unfolding w using p by (simp only: nth_append if_True)
    then show ?thesis
      using True by (simp add: nth_append)
  next
    case False
    then have "write_at f pos bs ! i = (bs @ drop (pos + length bs) f) ! (i - pos)"
      unfolding w using p by (simp only: nth_append if_False)
    moreover have "i < length f" if "\<not> i < pos + length bs"
      using that assms by (simp add: write_at_length)
    ultimately show ?thesis
      using False by (auto simp: nth_append)
  qed
qed

lemma drop_write_at_cong:
  assumes d: "drop k f' = drop k f"
  shows "drop k (write_at f' pos bs) = drop k (write_at f pos bs)"
proof (rule nth_equalityI)
  have l: "length f' - k = length f - k"
    using arg_cong [OF d, of length] by simp
  then show ll: "length (drop k (write_at f' pos bs)) = length (drop k (write_at f pos bs))"
    by (simp add: write_at_length)
  fix i
  assume "i < length (drop k (write_at f' pos bs))"
  then have i: "k + i < length (write_at f' pos bs)" "k + i < length (write_at f pos bs)"
    using ll by simp_all
  have c: "(k + i < length f') = (k + i < length f)"
    using l by arith
  have n: "f' ! (k + i) = f ! (k + i)" if "k + i < length f"
  proof -
    have "drop k f' ! i = drop k f ! i"
      by (simp only: d)
    then show ?thesis
      using that c by simp
  qed
  have n2: "f' ! (k + i) = f ! (k + i)" if "\<not> k + i < pos + length bs"
    using that i(2) n by (simp add: write_at_length)
  show "drop k (write_at f' pos bs) ! i = drop k (write_at f pos bs) ! i"
    using i n n2 c by (simp add: write_at_nth)
qed

lemma read_at_cong:
  assumes d: "drop k f' = drop k f" and k: "k \<le> pos"
  shows "read_at f' pos n = read_at f pos n"
proof -
  have "drop pos f' = drop (pos - k) (drop k f')" "drop pos f = drop (pos - k) (drop k f)"
    using k by simp_all
  then show ?thesis
    using d by (simp add: read_at_def)
qed

lemma my_write_bad:
  "bad_fh (g_files st) fh \<Longrightarrow> my_write env fh buf offset st = (Inl EBADF, st)"
  by (simp add: my_write_def)

lemma my_write_big:
  "\<not> bad_fh (g_files st) fh \<Longrightarrow> offset + of_nat (length buf) > of_nat FILE_REGION_SIZE \<Longrightarrow>
   my_write env fh buf offset st = (Inl ENOSPC, st)"
  by (simp only: my_write_def Let_def if_True if_False simp_thms)

lemma my_write_noseek:
  "\<not> bad_fh (g_files st) fh \<Longrightarrow> \<not> offset + of_nat (length buf) > of_nat FILE_REGION_SIZE \<Longrightarrow>
   \<not> seek_ok env \<Longrightarrow> my_write env fh buf offset st = (Inl EIO, st)"
  by (simp only: my_write_def Let_def if_True if_False simp_thms)

lemma my_write_short:
  "\<not> bad_fh (g_files st) fh \<Longrightarrow> \<not> offset + of_nat (length buf) > of_nat FILE_REGION_SIZE \<Longrightarrow>
   seek_ok env \<Longrightarrow> min (data_xfer env) (unat (of_nat (length buf) :: 64 word)) \<noteq> unat (of_nat (length buf) :: 64 word) \<Longrightarrow>
   my_write env fh buf offset st =
     (Inl EIO, st\<lparr>g_fs_file := write_at (g_fs_file st)
        (unat (ucast ((ucast (region_start (nat (fh_idx fh))) :: 64 word) + offset) :: 32 word))
        (take (min (data_xfer env) (unat (of_nat (length buf) :: 64 word))) buf)\<rparr>)"
  by (simp only: my_write_def Let_def if_True if_False simp_thms)

lemma my_write_full:
  "\<not> bad_fh (g_files st) fh \<Longrightarrow> \<not> offset + of_nat (length buf) > of_nat FILE_REGION_SIZE \<Longrightarrow>
   seek_ok env \<Longrightarrow> min (data_xfer env) (unat (of_nat (length buf) :: 64 word)) = unat (of_nat (length buf) :: 64 word) \<Longrightarrow>
   my_write env fh buf offset st =
     sync_return env (sint (of_nat (min (data_xfer env) (unat (of_nat (length buf) :: 64 word))) :: 32 word))
       (fs_recompute_last_alloc
         (st\<lparr>g_fs_file := write_at (g_fs_file st)
              (unat (ucast ((ucast (region_start (nat (fh_idx fh))) :: 64 word) + offset) :: 32 word))
              (take (min (data_xfer env) (unat (of_nat (length buf) :: 64 word))) buf),
             g_files := (g_files st)[nat (fh_idx fh) :=
               (if (ucast (offset + of_nat (length buf)) :: 32 word) > fsize (g_files st ! nat (fh_idx fh))
                then (g_files st ! nat (fh_idx fh))\<lparr>fsize := ucast (offset + of_nat (length buf))\<rparr>
                else g_files st ! nat (fh_idx fh))\<lparr>mtime := ucast (now env)\<rparr>]\<rparr>))"
  by (simp add: my_write_def Let_def del: of_nat_add)

lemma same_my_write:
  assumes wf: "wf_table (g_files st)" and eq: "perms_equiv st' st"
  shows "same_result (my_write env fh buf offset st') (my_write env fh buf offset st)"
proof -
  note e = perms_equivD [OF eq]
  have len: "length (g_files st) = MAX_FILES"
    using wf by (simp add: wf_table_def)
  have b: "bad_fh (g_files st') fh = bad_fh (g_files st) fh"
    using e(3) len by (rule same_bad_fh)
  define idx where "idx = nat (fh_idx fh)"
  define pos where "pos = unat (ucast ((ucast (region_start idx) :: 64 word) + offset) :: 32 word)"
  define n where "n = unat (of_nat (length buf) :: 64 word)"
  define w where "w = min (data_xfer env) n"
  define new_end where "new_end = (ucast (offset + of_nat (length buf)) :: 32 word)"
  let ?wr = "\<lambda>s. s\<lparr>g_fs_file := write_at (g_fs_file s) pos (take w buf)\<rparr>"
  let ?fe = "\<lambda>s. (if new_end > fsize (g_files s ! idx)
                  then (g_files s ! idx)\<lparr>fsize := new_end\<rparr> else g_files s ! idx)
               \<lparr>mtime := ucast (now env)\<rparr>"
  let ?up = "\<lambda>s. s\<lparr>g_fs_file := write_at (g_fs_file s) pos (take w buf),
                    g_files := (g_files s)[idx := ?fe s]\<rparr>"
  have d: "drop DATA_OFFSET (g_fs_file (?wr st')) = drop DATA_OFFSET (g_fs_file (?wr st))"
    using drop_write_at_cong [OF e(2), of pos "take w buf"] by simp
  consider (bad) "bad_fh (g_files st) fh"
    | (big) "\<not> bad_fh (g_files st) fh" "offset + of_nat (length buf) > of_nat FILE_REGION_SIZE"
    | (noseek) "\<not> bad_fh (g_files st) fh" "\<not> offset + of_nat (length buf) > of_nat FILE_REGION_SIZE"
        "\<not> seek_ok env"
    | (short) "\<not> bad_fh (g_files st) fh" "\<not> offset + of_nat (length buf) > of_nat FILE_REGION_SIZE"
        "seek_ok env" "w \<noteq> n"
    | (full) "\<not> bad_fh (g_files st) fh" "\<not> offset + of_nat (length buf) > of_nat FILE_REGION_SIZE"
        "seek_ok env" "w = n"
    by blast
  then show ?thesis
  proof cases
    case bad
    then have b': "bad_fh (g_files st') fh"
      using b by simp
    show ?thesis
      unfolding my_write_bad [OF bad] my_write_bad [OF b']
      using eq by (rule same_result_same)
  next
    case big
    have b': "\<not> bad_fh (g_files st') fh"
      using b big(1) by simp
    show ?thesis
      unfolding my_write_big [OF big] my_write_big [OF b' big(2)]
      using eq by (rule same_result_same)
  next
    case noseek
    have b': "\<not> bad_fh (g_files st') fh"
      using b noseek(1) by simp
    show ?thesis
      unfolding my_write_noseek [OF noseek] my_write_noseek [OF b' noseek(2,3)]
      using eq by (rule same_result_same)
  next
    case short
    have b': "\<not> bad_fh (g_files st') fh"
      using b short(1) by simp
    have ne: "min (data_xfer env) (unat (of_nat (length buf) :: 64 word)) \<noteq> unat (of_nat (length buf) :: 64 word)"
      using short(4) unfolding w_def n_def .
    have "my_write env fh buf offset st = (Inl EIO, ?wr st)"
      "my_write env fh buf offset st' = (Inl EIO, ?wr st')"
      unfolding my_write_short [OF short(1,2,3) ne] my_write_short [OF b' short(2,3) ne]
      by (simp_all only: w_def n_def pos_def idx_def)
    then show ?thesis
      using d e by (simp add: same_result_def perms_equiv_def)
  next
    case full
    have b': "\<not> bad_fh (g_files st') fh"
      using b full(1) by simp
    have idx: "idx < length (g_files st)" and idx': "idx < MAX_FILES"
      using full(1) len by (auto simp: bad_fh_def idx_def)
    have fu: "min (data_xfer env) (unat (of_nat (length buf) :: 64 word)) = unat (of_nat (length buf) :: 64 word)"
      using full(4) unfolding w_def n_def .
    have o: "my_write env fh buf offset st =
         sync_return env (sint (of_nat w :: 32 word)) (fs_recompute_last_alloc (?up st))"
      "my_write env fh buf offset st' =
         sync_return env (sint (of_nat w :: 32 word)) (fs_recompute_last_alloc (?up st'))"
      unfolding my_write_full [OF full(1,2,3) fu] my_write_full [OF b' full(2,3) fu]
      by (simp_all only: w_def n_def pos_def idx_def new_end_def)
    have fz: "fsize (g_files st' ! idx) = fsize (g_files st ! idx)"
      by (rule same_fields(3) [OF e(3) idx])
    have fe: "no_perms (?fe st') = no_perms (?fe st)"
      using same_nth [OF e(3) idx] fz by simp
    show ?thesis
      unfolding o
    proof (rule same_sync)
      show "wf_table (g_files (?up st))"
        using wf idx' by (simp add: wf_table_update wf_table_nth)
      show "map no_perms (g_files (?up st')) = map no_perms (g_files (?up st))"
        using same_update [OF e(3) fe, of idx] by simp
      show "g_super (?up st') = g_super (?up st)"
        by (simp add: e(1))
      show "drop DATA_OFFSET (g_fs_file (?up st')) = drop DATA_OFFSET (g_fs_file (?up st))"
        using d by simp
    qed
  qed
qed

lemma my_read_bad:
  "bad_fh (g_files st) fh \<Longrightarrow> my_read env fh sz offset st = Inl EBADF"
  by (simp add: my_read_def)

lemma my_read_eof:
  "\<not> bad_fh (g_files st) fh \<Longrightarrow> uint (fsize (g_files st ! nat (fh_idx fh))) \<le> sint offset \<Longrightarrow>
   my_read env fh sz offset st = Inr (0, [])"
  by (simp add: my_read_def Let_def)

lemma my_read_noseek:
  "\<not> bad_fh (g_files st) fh \<Longrightarrow> \<not> uint (fsize (g_files st ! nat (fh_idx fh))) \<le> sint offset \<Longrightarrow>
   \<not> seek_ok env \<Longrightarrow> my_read env fh sz offset st = Inl EIO"
  by (simp add: my_read_def Let_def)

lemma my_read_data:
  "\<not> bad_fh (g_files st) fh \<Longrightarrow> \<not> uint (fsize (g_files st ! nat (fh_idx fh))) \<le> sint offset \<Longrightarrow>
   seek_ok env \<Longrightarrow>
   my_read env fh sz offset st =
     Inr (sint (of_nat (length (take (data_xfer env)
            (read_at (g_fs_file st)
               (unat (ucast ((ucast (region_start (nat (fh_idx fh))) :: 64 word) + offset) :: 32 word))
               (unat (if offset + sz > ucast (fsize (g_files st ! nat (fh_idx fh)))
                      then ucast (fsize (g_files st ! nat (fh_idx fh))) - offset else sz))))) :: 32 word),
          take (data_xfer env)
            (read_at (g_fs_file st)
               (unat (ucast ((ucast (region_start (nat (fh_idx fh))) :: 64 word) + offset) :: 32 word))
               (unat (if offset + sz > ucast (fsize (g_files st ! nat (fh_idx fh)))
                      then ucast (fsize (g_files st ! nat (fh_idx fh))) - offset else sz))))"
  by (simp add: my_read_def Let_def)

lemma same_my_read:
  assumes wf: "wf_table (g_files st)" and eq: "perms_equiv st' st"
    and off: "0 \<le> sint offset" and sb: "sizes_bounded (g_files st)"
  shows "my_read env fh sz offset st' = my_read env fh sz offset st"
proof -
  note e = perms_equivD [OF eq]
  have len: "length (g_files st) = MAX_FILES"
    using wf by (simp add: wf_table_def)
  have b: "bad_fh (g_files st') fh = bad_fh (g_files st) fh"
    using e(3) len by (rule same_bad_fh)
  show ?thesis
  proof (cases "bad_fh (g_files st) fh")
    case True
    then have b': "bad_fh (g_files st') fh"
      using b by simp
    show ?thesis
      by (simp only: my_read_bad [OF True] my_read_bad [OF b'])
  next
    case False
    then have b': "\<not> bad_fh (g_files st') fh"
      using b by simp
    let ?i = "nat (fh_idx fh)"
    have idx: "?i < length (g_files st)" "?i < MAX_FILES" and u: "used (g_files st ! ?i) \<noteq> 0"
      using False len by (auto simp: bad_fh_def)
    have fz: "fsize (g_files st' ! ?i) = fsize (g_files st ! ?i)"
      by (rule same_fields(3) [OF e(3) idx(1)])
    have bound: "unat (fsize (g_files st ! ?i)) \<le> FILE_REGION_SIZE"
      using sb idx(1) u by (auto simp: sizes_bounded_def list_all_length)
    show ?thesis
    proof (cases "uint (fsize (g_files st ! ?i)) \<le> sint offset")
      case True
      then have t': "uint (fsize (g_files st' ! ?i)) \<le> sint offset"
        by (simp only: fz)
      show ?thesis
        by (simp only: my_read_eof [OF False True] my_read_eof [OF b' t'])
    next
      case lt: False
      then have lt': "\<not> uint (fsize (g_files st' ! ?i)) \<le> sint offset"
        by (simp add: fz)
      show ?thesis
      proof (cases "seek_ok env")
        case ns: False
        show ?thesis
          by (simp only: my_read_noseek [OF False lt ns] my_read_noseek [OF b' lt' ns])
      next
        case True
        have so: "sint offset = int (unat offset)"
          using off by (rule sint_nonneg_64(1))
        have "unat offset < unat (fsize (g_files st ! ?i))"
          using lt by (simp only: so uint_nat of_nat_le_iff not_le)
        then have o: "unat offset \<le> FILE_REGION_SIZE"
          using bound by simp
        have pos: "unat (ucast ((ucast (region_start ?i) :: 64 word) + offset) :: 32 word) =
            DATA_OFFSET + ?i * FILE_REGION_SIZE + unat offset"
          using idx(2) o by (rule file_offset_arith)
        have r: "read_at (g_fs_file st')
              (unat (ucast ((ucast (region_start ?i) :: 64 word) + offset) :: 32 word)) n =
            read_at (g_fs_file st)
              (unat (ucast ((ucast (region_start ?i) :: 64 word) + offset) :: 32 word)) n" for n
          using e(2) by (rule read_at_cong) (simp only: pos le_add1 add.assoc)
        show ?thesis
          by (simp only: my_read_data [OF False lt True] my_read_data [OF b' lt' True] fz r)
      qed
    qed
  qed
qed

lemma same_my_getattr:
  assumes wf: "wf_table (g_files st)" and eq: "perms_equiv st' st"
  shows "my_getattr st' path = my_getattr st path"
proof -
  note e = perms_equivD [OF eq]
  have len: "length (g_files st) = MAX_FILES"
    using wf by (simp add: wf_table_def)
  have f: "find_file_by_name (g_files st') path = find_file_by_name (g_files st) path"
    using e(3) len by (rule same_find)
  show ?thesis
  proof (cases "find_file_by_name (g_files st) path")
    case None
    then show ?thesis
      using f by (simp add: my_getattr_def)
  next
    case (Some idx)
    have idx: "idx < length (g_files st)"
      using find_Some_used(1) [OF Some] len by simp
    show ?thesis
      using Some f same_fields(3,4) [OF e(3) idx] by (simp add: my_getattr_def Let_def)
  qed
qed

lemma same_my_readdir:
  assumes wf: "wf_table (g_files st)" and eq: "perms_equiv st' st"
  shows "my_readdir st' path = my_readdir st path"
proof -
  note e = perms_equivD [OF eq]
  have len: "length (g_files st) = MAX_FILES"
    using wf by (simp add: wf_table_def)
  have u: "used (g_files st' ! i) = used (g_files st ! i)"
    and n: "name (g_files st' ! i) = name (g_files st ! i)" if "i < MAX_FILES" for i
    using that same_fields(1,2) [OF e(3), of i] len by simp_all
  have fl: "filter (\<lambda>i. used (g_files st' ! i) \<noteq> 0) [0..<MAX_FILES] =
      filter (\<lambda>i. used (g_files st ! i) \<noteq> 0) [0..<MAX_FILES]"
    by (rule filter_cong) (simp_all add: u)
  show ?thesis
    using fl by (simp add: my_readdir_def n)
qed

lemma same_with_reply:
  "same_result r' r \<Longrightarrow> same_result (with_reply f r') (with_reply f r)"
  by (simp add: same_result_def with_reply_def)

lemma same_my_oper:
  assumes wf: "wf_table (g_files st)" and eq: "perms_equiv st' st"
    and ok: "offset_ok op" and sb: "sizes_bounded (g_files st)"
  shows "same_result (my_oper env op st') (my_oper env op st)"
proof (cases op)
  case (Getattr path)
  then show ?thesis
    using same_my_getattr [OF wf eq, of path] eq by (simp add: same_result_def)
next
  case (Readdir path)
  then show ?thesis
    using same_my_readdir [OF wf eq, of path] eq by (simp add: same_result_def)
next
  case (Open path flags)
  then show ?thesis
    using same_my_open [OF wf eq, of env path flags] by (simp add: same_with_reply)
next
  case (Read fh sz offset)
  then have "0 \<le> sint offset"
    using ok by simp
  then show ?thesis
    using Read same_my_read [OF wf eq _ sb, of offset env fh sz] eq by (simp add: same_result_def)
next
  case (Write fh buf offset)
  then show ?thesis
    using same_my_write [OF wf eq, of env fh buf offset] by (simp add: same_with_reply)
next
  case (Create path mode)
  then show ?thesis
    using same_my_create [OF wf eq, of env path mode mode] by (simp add: same_with_reply)
next
  case (Unlink path)
  then show ?thesis
    using same_my_unlink [OF wf eq, of env path] by (simp add: same_with_reply)
next
  case (Truncate path sz)
  then show ?thesis
    using same_my_truncate [OF wf eq, of env path sz] by (simp add: same_with_reply)
next
  case Release
  then show ?thesis
    using eq by (simp add: same_result_def with_reply_def my_release_def)
qed

text \<open>
  The two properties of the table that the callbacks rely on hold after
  \<open>fs_format\<close> and are kept by every callback, so they hold in every state that the
  file system reaches.
\<close>

lemma g_files_sync_return:
  "g_files (snd (sync_return env r (fs_recompute_last_alloc st))) = g_files st"
  by (simp add: snd_sync_return)

lemma sizes_bounded_nth:
  "sizes_bounded fs \<Longrightarrow> i < length fs \<Longrightarrow> used (fs ! i) \<noteq> 0 \<Longrightarrow>
   unat (fsize (fs ! i)) \<le> FILE_REGION_SIZE"
  by (auto simp: sizes_bounded_def list_all_length)

lemma table_update:
  assumes "wf_table fs \<and> sizes_bounded fs" "length (name e) = NAME_MAX_LEN"
    "used e = 0 \<or> unat (fsize e) \<le> FILE_REGION_SIZE"
  shows "wf_table (fs[i := e]) \<and> sizes_bounded (fs[i := e])"
proof -
  have "sizes_bounded (fs[i := e])"
    using assms(1,3)
    by (auto simp: sizes_bounded_def list_all_iff dest!: set_update_subset_insert [THEN subsetD])
  then show ?thesis
    using assms(1,2) by (simp add: wf_table_update)
qed

lemma unat_ucast_le_region:
  fixes x :: "64 word"
  assumes "\<not> x > of_nat FILE_REGION_SIZE"
  shows "unat (ucast x :: 32 word) \<le> FILE_REGION_SIZE"
proof -
  have "unat (of_nat FILE_REGION_SIZE :: 64 word) = FILE_REGION_SIZE"
    by (simp add: unat_of_nat_64 FILE_REGION_SIZE_val)
  then have le: "unat x \<le> FILE_REGION_SIZE"
    using assms by (simp add: word_less_nat_alt)
  then have "unat (ucast x :: 32 word) = unat x"
    by (intro unat_ucast_64_32) (simp add: FILE_REGION_SIZE_val)
  then show ?thesis
    using le by simp
qed

lemma table_my_create:
  assumes ok: "wf_table (g_files st) \<and> sizes_bounded (g_files st)"
  shows "wf_table (g_files (snd (my_create env path mode st))) \<and>
         sizes_bounded (g_files (snd (my_create env path mode st)))"
proof (cases "find_file_by_name (g_files st) path")
  case (Some idx)
  then show ?thesis
    using ok by (simp add: my_create_def)
next
  case None
  show ?thesis
  proof (cases "alloc_file_slot (g_files st)")
    case none: None
    then show ?thesis
      using None ok by (simp add: my_create_def)
  next
    case (Some idx)
    show ?thesis
      unfolding my_create_new [OF None Some] g_files_sync_return
      using ok by (simp add: table_update length_strncpy NAME_MAX_LEN_def)
  qed
qed

lemma table_my_unlink:
  assumes ok: "wf_table (g_files st) \<and> sizes_bounded (g_files st)"
  shows "wf_table (g_files (snd (my_unlink env path st))) \<and>
         sizes_bounded (g_files (snd (my_unlink env path st)))"
proof (cases "find_file_by_name (g_files st) path")
  case None
  then show ?thesis
    using ok by (simp add: my_unlink_def)
next
  case (Some idx)
  show ?thesis
    unfolding my_unlink_found [OF Some] g_files_sync_return
    using ok by (simp add: table_update)
qed

lemma table_my_truncate:
  assumes ok: "wf_table (g_files st) \<and> sizes_bounded (g_files st)"
  shows "wf_table (g_files (snd (my_truncate env path sz st))) \<and>
         sizes_bounded (g_files (snd (my_truncate env path sz st)))"
proof (cases "find_file_by_name (g_files st) path")
  case None
  then show ?thesis
    using ok by (simp add: my_truncate_def)
next
  case (Some idx)
  show ?thesis
  proof (cases "sz > of_nat FILE_REGION_SIZE")
    case True
    then show ?thesis
      using Some ok by (simp add: my_truncate_def)
  next
    case False
    let ?e = "(g_files st ! idx)\<lparr>fsize := ucast sz, mtime := ucast (now env)\<rparr>"
    have t: "my_truncate env path sz st =
        sync_return env () (fs_recompute_last_alloc (st\<lparr>g_files := (g_files st)[idx := ?e]\<rparr>))"
      using Some False by (simp add: my_truncate_def Let_def)
    have n: "length (name ?e) = NAME_MAX_LEN"
      using ok find_Some_used(1) [OF Some] by (simp add: wf_table_nth)
    have s: "used ?e = 0 \<or> unat (fsize ?e) \<le> FILE_REGION_SIZE"
      using unat_ucast_le_region [OF False] by simp
    show ?thesis
      unfolding t g_files_sync_return
      using table_update [OF ok n s, of idx] by simp
  qed
qed

lemma table_my_open:
  assumes ok: "wf_table (g_files st) \<and> sizes_bounded (g_files st)"
  shows "wf_table (g_files (snd (my_open env path flags st))) \<and>
         sizes_bounded (g_files (snd (my_open env path flags st)))"
proof (cases "find_file_by_name (g_files st) path")
  case None
  show ?thesis
  proof (cases "flags AND O_CREAT = 0")
    case True
    then show ?thesis
      using None ok by (simp add: my_open_def)
  next
    case False
    show ?thesis
    proof (cases "alloc_file_slot (g_files st)")
      case none: None
      then show ?thesis
        using None False ok by (simp add: my_open_def)
    next
      case (Some idx)
      let ?e = "(g_files st ! idx)
                   \<lparr>used := 1,
                    name := strncpy (replicate NAME_MAX_LEN NUL) (skip_slash path) (NAME_MAX_LEN - 1),
                    fsize := 0, perms := 0x1A4, mtime := ucast (now env), start := 0\<rparr>"
      have o: "my_open env path flags st =
          sync_return env idx (fs_recompute_last_alloc
            (st\<lparr>g_files := (g_files st)[idx := ?e],
                g_super := (g_super st)\<lparr>file_count := file_count (g_super st) + 1\<rparr>\<rparr>))"
        using None False Some by (simp add: my_open_def Let_def)
      have n: "length (name ?e) = NAME_MAX_LEN"
        by (simp add: length_strncpy NAME_MAX_LEN_def)
      have s: "used ?e = 0 \<or> unat (fsize ?e) \<le> FILE_REGION_SIZE"
        by simp
      show ?thesis
        unfolding o g_files_sync_return
        using table_update [OF ok n s, of idx] by simp
    qed
  qed
next
  case (Some idx)
  show ?thesis
  proof (cases "flags AND O_TRUNC = 0")
    case True
    then show ?thesis
      using Some ok by (simp add: my_open_def)
  next
    case False
    let ?e = "(g_files st ! idx)\<lparr>fsize := 0, mtime := ucast (now env)\<rparr>"
    have o: "my_open env path flags st =
        sync_return env idx (fs_recompute_last_alloc (st\<lparr>g_files := (g_files st)[idx := ?e]\<rparr>))"
      using Some False by (simp add: my_open_def Let_def)
    have n: "length (name ?e) = NAME_MAX_LEN"
      using ok find_Some_used(1) [OF Some] by (simp add: wf_table_nth)
    have s: "used ?e = 0 \<or> unat (fsize ?e) \<le> FILE_REGION_SIZE"
      by simp
    show ?thesis
      unfolding o g_files_sync_return
      using table_update [OF ok n s, of idx] by simp
  qed
qed

lemma table_my_write:
  assumes ok: "wf_table (g_files st) \<and> sizes_bounded (g_files st)"
  shows "wf_table (g_files (snd (my_write env fh buf offset st))) \<and>
         sizes_bounded (g_files (snd (my_write env fh buf offset st)))"
proof -
  let ?n = "unat (of_nat (length buf) :: 64 word)"
  let ?i = "nat (fh_idx fh)"
  let ?new_end = "ucast (offset + of_nat (length buf)) :: 32 word"
  let ?e = "(if ?new_end > fsize (g_files st ! ?i)
             then (g_files st ! ?i)\<lparr>fsize := ?new_end\<rparr>
             else g_files st ! ?i)\<lparr>mtime := ucast (now env)\<rparr>"
  consider (bad) "bad_fh (g_files st) fh"
    | (big) "\<not> bad_fh (g_files st) fh" "offset + of_nat (length buf) > of_nat FILE_REGION_SIZE"
    | (noseek) "\<not> bad_fh (g_files st) fh" "\<not> offset + of_nat (length buf) > of_nat FILE_REGION_SIZE"
        "\<not> seek_ok env"
    | (short) "\<not> bad_fh (g_files st) fh" "\<not> offset + of_nat (length buf) > of_nat FILE_REGION_SIZE"
        "seek_ok env" "min (data_xfer env) ?n \<noteq> ?n"
    | (full) "\<not> bad_fh (g_files st) fh" "\<not> offset + of_nat (length buf) > of_nat FILE_REGION_SIZE"
        "seek_ok env" "min (data_xfer env) ?n = ?n"
    by blast
  then show ?thesis
  proof cases
    case bad
    show ?thesis
      unfolding my_write_bad [OF bad] using ok by simp
  next
    case big
    show ?thesis
      unfolding my_write_big [OF big] using ok by simp
  next
    case noseek
    show ?thesis
      unfolding my_write_noseek [OF noseek] using ok by simp
  next
    case short
    show ?thesis
      unfolding my_write_short [OF short] using ok by simp
  next
    case full
    have len: "length (g_files st) = MAX_FILES"
      using ok by (simp add: wf_table_def)
    have idx: "?i < MAX_FILES" "used (g_files st ! ?i) \<noteq> 0"
      using full(1) by (auto simp: bad_fh_def)
    have old: "unat (fsize (g_files st ! ?i)) \<le> FILE_REGION_SIZE"
      using ok idx len by (intro sizes_bounded_nth) simp_all
    have n: "length (name ?e) = NAME_MAX_LEN"
      using ok idx(1) by (simp add: wf_table_nth)
    have s: "used ?e = 0 \<or> unat (fsize ?e) \<le> FILE_REGION_SIZE"
      using unat_ucast_le_region [OF full(2)] old by simp
    show ?thesis
      unfolding my_write_full [OF full] g_files_sync_return
      using table_update [OF ok n s, of ?i] by simp
  qed
qed

lemma table_my_oper:
  assumes ok: "wf_table (g_files st) \<and> sizes_bounded (g_files st)"
  shows "wf_table (g_files (snd (my_oper env op st))) \<and>
         sizes_bounded (g_files (snd (my_oper env op st)))"
  using ok
  by (cases op)
    (simp_all add: with_reply_def my_release_def table_my_create table_my_open table_my_write
      table_my_unlink table_my_truncate)

lemma table_fs_format:
  "wf_table (g_files (snd (fs_format env created))) \<and>
   sizes_bounded (g_files (snd (fs_format env created)))"
  by (simp add: fs_format_def Let_def snd_sync_return wf_table_def sizes_bounded_def list_all_iff)

lemma table_run:
  "wf_table (g_files st) \<and> sizes_bounded (g_files st) \<Longrightarrow>
   wf_table (g_files (snd (run cs st))) \<and> sizes_bounded (g_files (snd (run cs st)))"
proof (induction cs arbitrary: st)
  case Nil
  then show ?case
    by simp
next
  case (Cons c cs)
  have "wf_table (g_files (snd (my_oper (fst c) (snd c) st))) \<and>
      sizes_bounded (g_files (snd (my_oper (fst c) (snd c) st)))"
    using Cons.prems by (rule table_my_oper)
  then show ?case
    using Cons.IH [of "snd (my_oper (fst c) (snd c) st)"] by (simp add: Let_def)
qed

lemma same_run:
  assumes "wf_table (g_files st)" "sizes_bounded (g_files st)" "perms_equiv st' st"
    "list_all (\<lambda>c. offset_ok (snd c)) cs"
  shows "same_result (run cs st') (run cs st)"
  using assms
proof (induction cs arbitrary: st st')
  case Nil
  then show ?case
    by (simp add: same_result_def)
next
  case (Cons c cs)
  let ?r = "my_oper (fst c) (snd c) st" and ?r' = "my_oper (fst c) (snd c) st'"
  have ok: "offset_ok (snd c)" "list_all (\<lambda>c. offset_ok (snd c)) cs"
    using Cons.prems(4) by simp_all
  have s: "same_result ?r' ?r"
    using Cons.prems(1,3) ok(1) Cons.prems(2) by (rule same_my_oper)
  have t: "wf_table (g_files (snd ?r)) \<and> sizes_bounded (g_files (snd ?r))"
    using Cons.prems(1,2) by (intro table_my_oper) simp
  have "same_result (run cs (snd ?r')) (run cs (snd ?r))"
    using t s ok(2) by (intro Cons.IH) (simp_all add: same_result_def)
  then show ?case
    using s by (simp add: Let_def same_result_def)
qed

lemma my_getattr_found:
  assumes "strcmp path ''/'' \<noteq> 0" "find_file_by_name (g_files st) path = Some idx"
  shows "my_getattr st path =
     Inr (zero_stat\<lparr>st_mode := S_IFREG OR 0x1A4, st_nlink := 1,
            st_size := ucast (fsize (g_files st ! idx)),
            st_mtime := ucast (mtime (g_files st ! idx)),
            st_atime := ucast (mtime (g_files st ! idx)),
            st_ctime := ucast (mtime (g_files st ! idx))\<rparr>)"
  using assms by (simp add: my_getattr_def Let_def)

lemma sizes_bounded_ex_two: "sizes_bounded ex_two"
  by (simp add: sizes_bounded_def list_all_length length_ex_two ex_two_nth FILE_REGION_SIZE_val)

lemma wf_ex_two_0700: "wf_table ex_two_0700"
  unfolding ex_two_0700_def
  by (rule wf_table_update [OF wf_ex_two]) (simp add: ex_two_0)

lemma perms_equiv_ex_two: "perms_equiv (ex_state ex_two_0700) (ex_state ex_two)"
proof -
  have m: "map no_perms ex_two_0700 = map no_perms ex_two"
    unfolding ex_two_0700_def
    by (simp add: map_update list_update_same_conv length_ex_two MAX_FILES_def)
  have c: "length (filter (\<lambda>e. used e \<noteq> 0) (map no_perms ex_two_0700)) =
      length (filter (\<lambda>e. used e \<noteq> 0) (map no_perms ex_two))"
    by (simp only: m)
  have c': "length (filter (\<lambda>e. used e \<noteq> 0) ex_two_0700) = length (filter (\<lambda>e. used e \<noteq> 0) ex_two)"
    using c by (simp add: filter_map o_def)
  show ?thesis
    unfolding ex_state_def
    by (rule same_sync [unfolded same_result_def, THEN conjunct2]) (simp_all add: wf_ex_two m c')
qed

text \<open>
  C10. In a state whose table has \<open>MAX_FILES\<close> entries with name buffers of
  \<open>NAME_MAX_LEN\<close> characters and whose used entries have sizes of at most
  \<open>FILE_REGION_SIZE\<close>, let \<open>st'\<close> differ from \<open>st\<close> in the \<open>perms\<close> fields of the
  table and in the metadata region of the backing file only. Then \<open>my_getattr\<close> on
  the path of an existing file reports \<open>S_IFREG | 0644\<close>, link count 1, and the size
  and the time of the entry in \<open>st'\<close> as in \<open>st\<close>; \<open>my_create\<close> called with two
  different modes gives the same answer and states that again differ in this way
  only; and every list of requests to the callbacks of \<open>my_oper\<close>, the reads being at
  offsets that are not negative, gets the same answers from \<open>st'\<close> as from \<open>st\<close>: no
  answer depends on a stored \<open>perms\<close> value.
\<close>

theorem perms_never_read_back:
  assumes wf: "wf_table (g_files st)" and sb: "sizes_bounded (g_files st)"
    and eq: "perms_equiv st' st" and ok: "list_all (\<lambda>c. offset_ok (snd c)) cs"
  shows "(strcmp path ''/'' \<noteq> 0 \<and> find_file_by_name (g_files st) path = Some idx \<longrightarrow>
            my_getattr st' path =
              Inr (zero_stat\<lparr>st_mode := S_IFREG OR 0x1A4, st_nlink := 1,
                     st_size := ucast (fsize (g_files st ! idx)),
                     st_mtime := ucast (mtime (g_files st ! idx)),
                     st_atime := ucast (mtime (g_files st ! idx)),
                     st_ctime := ucast (mtime (g_files st ! idx))\<rparr>)) \<and>
         same_result (my_create env path mode' st') (my_create env path mode st) \<and>
         same_result (run cs st') (run cs st)"
proof (intro conjI impI)
  assume "strcmp path ''/'' \<noteq> 0 \<and> find_file_by_name (g_files st) path = Some idx"
  then show "my_getattr st' path =
      Inr (zero_stat\<lparr>st_mode := S_IFREG OR 0x1A4, st_nlink := 1,
             st_size := ucast (fsize (g_files st ! idx)),
             st_mtime := ucast (mtime (g_files st ! idx)),
             st_atime := ucast (mtime (g_files st ! idx)),
             st_ctime := ucast (mtime (g_files st ! idx))\<rparr>)"
    unfolding same_my_getattr [OF wf eq] by (simp add: my_getattr_found)
next
  show "same_result (my_create env path mode' st') (my_create env path mode st)"
    using wf eq by (rule same_my_create)
next
  show "same_result (run cs st') (run cs st)"
    using wf sb eq ok by (rule same_run)
qed

text \<open>
  A witness for C10: the table \<open>ex_two\<close> and the same table with mode 0700 stored
  for the file \<open>a\<close>. The attributes of \<open>a\<close> are those of a regular file of mode
  0644 in the second state too, and the requests to create a file \<open>c\<close>, to read
  \<open>a\<close> and to list the directory get the same answers in both.
\<close>

theorem perms_never_read_back_witness:
  "my_getattr (ex_state ex_two_0700) ''/a'' =
     Inr (zero_stat\<lparr>st_mode := 0x81A4, st_nlink := 1, st_size := 10,
            st_mtime := 0x65000000, st_atime := 0x65000000, st_ctime := 0x65000000\<rparr>) \<and>
   perms (g_files (ex_state ex_two_0700) ! 0) = 0x1C0 \<and>
   same_result
     (run [(ex_env, Create ''/c'' 0x180), (ex_env, Read 0 100 3), (ex_env, Readdir ''/'')]
        (ex_state ex_two_0700))
     (run [(ex_env, Create ''/c'' 0x180), (ex_env, Read 0 100 3), (ex_env, Readdir ''/'')]
        (ex_state ex_two))"
proof -
  have wf: "wf_table (g_files (ex_state ex_two))"
    by (simp add: wf_ex_two)
  have sb: "sizes_bounded (g_files (ex_state ex_two))"
    by (simp add: sizes_bounded_ex_two)
  have ok: "list_all (\<lambda>c. offset_ok (snd c))
      [(ex_env, Create ''/c'' 0x180), (ex_env, Read 0 100 3), (ex_env, Readdir ''/'')]"
    by simp
  have p: "strcmp ''/a'' ''/'' \<noteq> 0 \<and> find_file_by_name (g_files (ex_state ex_two)) ''/a'' = Some 0"
    by (simp add: strcmp_0_iff c_str_simps find_a_ex_two)
  note t = perms_never_read_back [OF wf sb perms_equiv_ex_two ok,
      where path = "''/a''" and idx = 0 and env = ex_env and mode = 0 and mode' = 0]
  have g: "my_getattr (ex_state ex_two_0700) ''/a'' =
     Inr (zero_stat\<lparr>st_mode := 0x81A4, st_nlink := 1, st_size := 10,
            st_mtime := 0x65000000, st_atime := 0x65000000, st_ctime := 0x65000000\<rparr>)"
    using t p by (simp add: ex_two_0 ex_entry_def S_IFREG_def)
  have q: "perms (g_files (ex_state ex_two_0700) ! 0) = 0x1C0"
    by (simp add: ex_two_0700_def length_ex_two MAX_FILES_def)
  show ?thesis
    using g q t by blast
qed

end
